theory Spec2Isabelle
  imports Main
begin

section \<open>The board game of Game.cpp\<close>

text \<open>
  The game logic of \<^verbatim>\<open>Game.cpp\<close>: \<^verbatim>\<open>Game::initBoard\<close>, \<^verbatim>\<open>Game::spawnFood\<close>,
  \<^verbatim>\<open>Game::getFood\<close> and \<^verbatim>\<open>Game::handle_event\<close>. The members they read and write are
  the 5 by 5 array \<^verbatim>\<open>board\<close>, the position \<^verbatim>\<open>chef\<close> and the three fields of \<^verbatim>\<open>win\<close>.
  The vectors \<^verbatim>\<open>board_meshes\<close> and \<^verbatim>\<open>board_rotations\<close> are written for the renderer
  and never read by these four functions; they are not part of the state below.

  C++ leaves an array access outside the array and a remainder by zero undefined. The
  embedding makes both a failure value, so that a theorem saying that a call returns
  \<open>Inr\<close> also says that the call stays inside the array and never divides by zero.
\<close>

subsection \<open>Data\<close>

datatype error = OutOfBounds | ModuloByZero | InsufficientSpawnCells

text \<open>
  \<open>InsufficientSpawnCells\<close> is the error name of the specification; no path of the source
  produces it.
\<close>

type_synonym board = "int list list"

text \<open>
  Cell codes, from the comment in \<^verbatim>\<open>initBoard\<close>: 0 empty square, 1 square with the chef,
  2 jelly, 3 peanut butter, 4 bread, 5 goal square, 6 empty side square.
  \<^verbatim>\<open>board[x][y]\<close> is entry \<open>y\<close> of row \<open>x\<close>.
\<close>

record game =
  board :: board
  chef_x :: int
  chef_y :: int
  win_PB :: bool
  win_J :: bool
  win_bread :: bool

text \<open>
  The four values that \<^verbatim>\<open>rand()\<close> returns in \<^verbatim>\<open>spawnFood\<close> after \<^verbatim>\<open>srand(time(NULL))\<close>;
  \<^verbatim>\<open>rand()\<close> is never negative.
\<close>

datatype draws = Draws nat nat nat nat

fun rand :: "draws \<Rightarrow> nat \<Rightarrow> nat" where
  "rand (Draws a b c d) i = (if i = 0 then a else if i = 1 then b else if i = 2 then c else d)"

datatype event_type = SDL_KEYDOWN | SDL_KEYUP | SDL_OTHER_EVENT

datatype scancode =
  SDL_SCANCODE_UP | SDL_SCANCODE_DOWN | SDL_SCANCODE_LEFT | SDL_SCANCODE_RIGHT
  | SDL_SCANCODE_OTHER

record SDL_Event =
  ev_type :: event_type
  key_repeat :: nat
  key_scancode :: scancode

subsection \<open>Array accesses\<close>

definition on_board :: "int \<Rightarrow> int \<Rightarrow> bool" where
  "on_board x y \<longleftrightarrow> 0 \<le> x \<and> x < 5 \<and> 0 \<le> y \<and> y < 5"

definition cell :: "board \<Rightarrow> int \<Rightarrow> int \<Rightarrow> int" where
  "cell b x y = b ! nat x ! nat y"

definition put :: "board \<Rightarrow> int \<Rightarrow> int \<Rightarrow> int \<Rightarrow> board" where
  "put b x y v = b[nat x := (b ! nat x)[nat y := v]]"

definition read_cell :: "board \<Rightarrow> int \<Rightarrow> int \<Rightarrow> error + int" where
  "read_cell b x y = (if on_board x y then Inr (cell b x y) else Inl OutOfBounds)"

definition write_cell :: "board \<Rightarrow> int \<Rightarrow> int \<Rightarrow> int \<Rightarrow> error + board" where
  "write_cell b x y v = (if on_board x y then Inr (put b x y v) else Inl OutOfBounds)"

definition shape :: "board \<Rightarrow> bool" where
  "shape b \<longleftrightarrow> length b = 5 \<and> list_all (\<lambda>r. length r = 5) b"

definition count_cells :: "board \<Rightarrow> int \<Rightarrow> nat" where
  "count_cells b c = count_list (concat b) c"

subsection \<open>spawnFood\<close>

definition erase :: "'a list \<Rightarrow> nat \<Rightarrow> 'a list" where
  "erase xs i = take i xs @ drop (Suc i) xs"

definition item_code :: "nat \<Rightarrow> int" where
  "item_code i = (if i = 0 then 3 else if i = 1 then 2 else if i = 2 then 4 else 5)"

text \<open>
  The loop \<^verbatim>\<open>for (int i=0; i<4; i++)\<close> of \<^verbatim>\<open>spawnFood\<close>. The first argument is the
  number of iterations left, \<open>4 - i\<close>. \<^verbatim>\<open>len\<close> starts as the size of the vector and is
  decremented only after a remainder by a \<^verbatim>\<open>len\<close> that is not zero, so it is never
  negative.
\<close>

fun spawnFood_loop ::
  "nat \<Rightarrow> nat \<Rightarrow> draws \<Rightarrow> nat \<Rightarrow> (int \<times> int) list \<Rightarrow> board \<Rightarrow> error + board" where
  "spawnFood_loop 0 i rs len counterSpace b = Inr b"
| "spawnFood_loop (Suc n) i rs len counterSpace b =
     (if len = 0 then Inl ModuloByZero
      else
        let ind = rand rs i mod len in
        if ind < length counterSpace then
          (case write_cell b (fst (counterSpace ! ind)) (snd (counterSpace ! ind)) (item_code i) of
             Inl e \<Rightarrow> Inl e
           | Inr b' \<Rightarrow> spawnFood_loop n (i + 1) rs (len - 1) (erase counterSpace ind) b')
        else Inl OutOfBounds)"

definition spawnFood :: "draws \<Rightarrow> (int \<times> int) list \<Rightarrow> board \<Rightarrow> error + board" where
  "spawnFood rs counterSpace b = spawnFood_loop 4 0 rs (length counterSpace) counterSpace b"

subsection \<open>initBoard\<close>

definition init_cell :: "nat \<Rightarrow> nat \<Rightarrow> int" where
  "init_cell x y =
     (if x = 2 \<and> y = 2 then 1
      else if (y = 0 \<and> (x > 0 \<and> x < 4)) \<or> (y = 4 \<and> (x > 0 \<and> x < 4)) \<or>
              (x = 0 \<and> (y > 0 \<and> y < 4)) \<or> (x = 4 \<and> (y > 0 \<and> y < 4)) then 6
      else 0)"

text \<open>
  The two nested loops of \<^verbatim>\<open>initBoard\<close> assign every \<^verbatim>\<open>board[x][y]\<close> with \<open>x, y < 5\<close>
  once, whatever the board held before.
\<close>

definition init_board :: board where
  "init_board = map (\<lambda>x. map (\<lambda>y. init_cell x y) [0..<5]) [0..<5]"

definition fillIn :: "(int \<times> int) list" where
  "fillIn = [(0,1), (0,2), (0,3), (1,0), (2,0), (3,0), (4,1), (4,2), (4,3), (1,4), (2,4), (3,4)]"

definition initBoard :: "draws \<Rightarrow> game \<Rightarrow> error + game" where
  "initBoard rs s =
     (case spawnFood rs fillIn init_board of
        Inl e \<Rightarrow> Inl e
      | Inr b \<Rightarrow> Inr (s\<lparr>board := b, chef_x := 2, chef_y := 2\<rparr>))"

subsection \<open>getFood\<close>

definition target :: "int \<Rightarrow> game \<Rightarrow> int \<times> int" where
  "target dir s =
     (if dir = 0 then (chef_x s - 1, chef_y s)
      else if dir = 1 then (chef_x s + 1, chef_y s)
      else if dir = 2 then (chef_x s, chef_y s - 1)
      else (chef_x s, chef_y s + 1))"

definition getFood :: "draws \<Rightarrow> int \<Rightarrow> game \<Rightarrow> error + game" where
  "getFood rs dir s =
     (let x = fst (target dir s); y = snd (target dir s) in
      case read_cell (board s) x y of
        Inl e \<Rightarrow> Inl e
      | Inr item \<Rightarrow>
          if item > 1 \<and> item < 6 then
            if item = 5 then
              if win_PB s \<and> win_J s \<and> win_bread s then
                initBoard rs (s\<lparr>win_PB := False, win_J := False, win_bread := False\<rparr>)
              else Inr s
            else
              let s1 = (if item = 3 then s\<lparr>win_PB := True\<rparr>
                        else if item = 2 then s\<lparr>win_J := True\<rparr>
                        else s\<lparr>win_bread := True\<rparr>) in
              case write_cell (board s1) x y 6 of
                Inl e \<Rightarrow> Inl e
              | Inr b \<Rightarrow> Inr (s1\<lparr>board := b\<rparr>)
          else Inr s)"

subsection \<open>handle_event\<close>

text \<open>
  The block that each of the four arrow-key branches runs when the chef can move:
  \<^verbatim>\<open>board[chef.x][chef.y] = 0\<close>, the change of one coordinate by one, and
  \<^verbatim>\<open>board[chef.x][chef.y] = 1\<close>.
\<close>

definition move_chef :: "int \<Rightarrow> int \<Rightarrow> game \<Rightarrow> error + game" where
  "move_chef dx dy s =
     (case write_cell (board s) (chef_x s) (chef_y s) 0 of
        Inl e \<Rightarrow> Inl e
      | Inr b0 \<Rightarrow>
          (case write_cell b0 (chef_x s + dx) (chef_y s + dy) 1 of
             Inl e \<Rightarrow> Inl e
           | Inr b1 \<Rightarrow> Inr (s\<lparr>board := b1, chef_x := chef_x s + dx, chef_y := chef_y s + dy\<rparr>)))"

text \<open>
  In each arrow-key branch the second test reads the position that \<^verbatim>\<open>getFood\<close> has
  left: the two \<^verbatim>\<open>if\<close> statements follow each other, there is no \<^verbatim>\<open>else\<close>.
\<close>

definition handle_event :: "draws \<Rightarrow> SDL_Event \<Rightarrow> game \<Rightarrow> error + (bool \<times> game)" where
  "handle_event rs evt s =
     (if ev_type evt = SDL_KEYDOWN \<and> key_repeat evt \<noteq> 0 then Inr (False, s)
      else if ev_type evt = SDL_KEYDOWN \<and> key_repeat evt = 0 then
        (if key_scancode evt = SDL_SCANCODE_UP then
           (case (if chef_x s = 3 then getFood rs 1 s else Inr s) of
              Inl e \<Rightarrow> Inl e
            | Inr s1 \<Rightarrow>
                (case (if chef_x s1 < 3 then move_chef 1 0 s1 else Inr s1) of
                   Inl e \<Rightarrow> Inl e
                 | Inr s2 \<Rightarrow> Inr (True, s2)))
         else if key_scancode evt = SDL_SCANCODE_DOWN then
           (case (if chef_x s = 1 then getFood rs 0 s else Inr s) of
              Inl e \<Rightarrow> Inl e
            | Inr s1 \<Rightarrow>
                (case (if chef_x s1 > 1 then move_chef (- 1) 0 s1 else Inr s1) of
                   Inl e \<Rightarrow> Inl e
                 | Inr s2 \<Rightarrow> Inr (True, s2)))
         else if key_scancode evt = SDL_SCANCODE_LEFT then
           (case (if chef_y s = 1 then getFood rs 2 s else Inr s) of
              Inl e \<Rightarrow> Inl e
            | Inr s1 \<Rightarrow>
                (case (if chef_y s1 > 1 then move_chef 0 (- 1) s1 else Inr s1) of
                   Inl e \<Rightarrow> Inl e
                 | Inr s2 \<Rightarrow> Inr (True, s2)))
         else if key_scancode evt = SDL_SCANCODE_RIGHT then
           (case (if chef_y s = 3 then getFood rs 3 s else Inr s) of
              Inl e \<Rightarrow> Inl e
            | Inr s1 \<Rightarrow>
                (case (if chef_y s1 < 3 then move_chef 0 1 s1 else Inr s1) of
                   Inl e \<Rightarrow> Inl e
                 | Inr s2 \<Rightarrow> Inr (True, s2)))
         else Inr (False, s))
      else Inr (False, s))"

subsection \<open>Sequences of calls\<close>

datatype command = Initialize draws | Handle draws SDL_Event

fun run :: "command list \<Rightarrow> game \<Rightarrow> error + game" where
  "run [] s = Inr s"
| "run (Initialize rs # cs) s =
     (case initBoard rs s of Inl e \<Rightarrow> Inl e | Inr s' \<Rightarrow> run cs s')"
| "run (Handle rs evt # cs) s =
     (case handle_event rs evt s of Inl e \<Rightarrow> Inl e | Inr r \<Rightarrow> run cs (snd r))"

text \<open>A first \<^verbatim>\<open>initBoard\<close>, as the constructor \<^verbatim>\<open>Game::Game\<close> calls it, then the commands.\<close>

definition play :: "draws \<Rightarrow> game \<Rightarrow> command list \<Rightarrow> error + game" where
  "play rs s cs = (case initBoard rs s of Inl e \<Rightarrow> Inl e | Inr s0 \<Rightarrow> run cs s0)"

text \<open>A key press that is not an automatic repeat.\<close>

definition key_press :: "scancode \<Rightarrow> SDL_Event" where
  "key_press k = \<lparr>ev_type = SDL_KEYDOWN, key_repeat = 0, key_scancode = k\<rparr>"

text \<open>
  A round played to its end after the draws 0, 0, 0, 0: the jelly, the peanut butter and
  the bread are collected, and the last press of the left key delivers them to the goal at
  \<^verbatim>\<open>board[1][0]\<close>. \<open>whole_round\<close> without its last press stops just before the win.
\<close>

definition press :: "scancode \<Rightarrow> command" where
  "press k = Handle (Draws 5 5 5 5) (key_press k)"

definition whole_round :: "command list" where
  "whole_round =
     [press SDL_SCANCODE_DOWN, press SDL_SCANCODE_DOWN, press SDL_SCANCODE_LEFT,
      press SDL_SCANCODE_DOWN, press SDL_SCANCODE_LEFT, press SDL_SCANCODE_RIGHT,
      press SDL_SCANCODE_RIGHT, press SDL_SCANCODE_DOWN, press SDL_SCANCODE_LEFT,
      press SDL_SCANCODE_LEFT, press SDL_SCANCODE_LEFT]"

subsection \<open>Notions of the specification\<close>

definition is_arrow :: "scancode \<Rightarrow> bool" where
  "is_arrow k \<longleftrightarrow> k \<noteq> SDL_SCANCODE_OTHER"

definition interior :: "int \<Rightarrow> int \<Rightarrow> bool" where
  "interior x y \<longleftrightarrow> 1 \<le> x \<and> x \<le> 3 \<and> 1 \<le> y \<and> y \<le> 3"

definition perimeter :: "int \<Rightarrow> int \<Rightarrow> bool" where
  "perimeter x y \<longleftrightarrow> on_board x y \<and> (x = 0 \<or> x = 4 \<or> y = 0 \<or> y = 4)"

definition all_collected :: "game \<Rightarrow> bool" where
  "all_collected s \<longleftrightarrow> win_PB s \<and> win_J s \<and> win_bread s"

definition none_collected :: "game \<Rightarrow> bool" where
  "none_collected s \<longleftrightarrow> \<not> win_PB s \<and> \<not> win_J s \<and> \<not> win_bread s"

text \<open>
  The state at the start of a round whose items were placed with the draws \<open>rs\<close>: the
  board that \<open>spawnFood\<close> makes from the initial board, the chef at (2,2), no flag set.
\<close>

definition fresh_round :: "draws \<Rightarrow> game \<Rightarrow> bool" where
  "fresh_round rs s \<longleftrightarrow>
     spawnFood rs fillIn init_board = Inr (board s) \<and> chef_x s = 2 \<and> chef_y s = 2 \<and>
     none_collected s"

text \<open>
  The arrow key is pressed while the chef stands at the edge of the interior towards which
  the key moves it, and the cell one step further, which \<open>getFood\<close> then reads.
\<close>

fun exits :: "scancode \<Rightarrow> game \<Rightarrow> bool" where
  "exits SDL_SCANCODE_UP s = (chef_x s = 3)"
| "exits SDL_SCANCODE_DOWN s = (chef_x s = 1)"
| "exits SDL_SCANCODE_LEFT s = (chef_y s = 1)"
| "exits SDL_SCANCODE_RIGHT s = (chef_y s = 3)"
| "exits SDL_SCANCODE_OTHER s = False"

fun facing :: "scancode \<Rightarrow> game \<Rightarrow> int \<times> int" where
  "facing SDL_SCANCODE_UP s = (chef_x s + 1, chef_y s)"
| "facing SDL_SCANCODE_DOWN s = (chef_x s - 1, chef_y s)"
| "facing SDL_SCANCODE_LEFT s = (chef_x s, chef_y s - 1)"
| "facing SDL_SCANCODE_RIGHT s = (chef_x s, chef_y s + 1)"
| "facing SDL_SCANCODE_OTHER s = (chef_x s, chef_y s)"

definition facing_item :: "scancode \<Rightarrow> game \<Rightarrow> int" where
  "facing_item k s = cell (board s) (fst (facing k s)) (snd (facing k s))"

text \<open>
  The coordinates of the specification: its \<open>x\<close> grows to the right and its \<open>y\<close> upwards,
  as on the screen. The left and right keys change \<^verbatim>\<open>chef.y\<close>, the up and down keys change
  \<^verbatim>\<open>chef.x\<close>, and \<^verbatim>\<open>Game::draw\<close> draws \<^verbatim>\<open>board[y][x]\<close> at the place \<open>(x, y)\<close>. So the
  position \<open>(x, y)\<close> of the specification is \<^verbatim>\<open>(chef.y, chef.x)\<close> and its cell \<open>(x, y)\<close> is
  \<^verbatim>\<open>board[y][x]\<close>.
\<close>

definition transposed :: "int \<times> int \<Rightarrow> int \<times> int" where
  "transposed p = (snd p, fst p)"

definition position :: "game \<Rightarrow> int \<times> int" where
  "position s = transposed (chef_x s, chef_y s)"

definition cell_at :: "game \<Rightarrow> int \<Rightarrow> int \<Rightarrow> int" where
  "cell_at s x y = cell (board s) y x"

text \<open>
  Selection without replacement, as the specification describes it: the pool before draw
  \<open>i\<close>, the cell that draw \<open>i\<close> takes from it, and the board after that cell has received
  the item of rank \<open>i\<close>.
\<close>

fun remaining :: "draws \<Rightarrow> (int \<times> int) list \<Rightarrow> nat \<Rightarrow> (int \<times> int) list" where
  "remaining rs cs 0 = cs"
| "remaining rs cs (Suc i) =
     erase (remaining rs cs i) (rand rs i mod length (remaining rs cs i))"

definition chosen :: "draws \<Rightarrow> (int \<times> int) list \<Rightarrow> nat \<Rightarrow> int \<times> int" where
  "chosen rs cs i = remaining rs cs i ! (rand rs i mod length (remaining rs cs i))"

definition place :: "draws \<Rightarrow> (int \<times> int) list \<Rightarrow> nat \<Rightarrow> board \<Rightarrow> board" where
  "place rs cs i b = put b (fst (chosen rs cs i)) (snd (chosen rs cs i)) (item_code i)"

definition spawned :: "draws \<Rightarrow> board" where
  "spawned rs =
     place rs fillIn 3 (place rs fillIn 2 (place rs fillIn 1 (place rs fillIn 0 init_board)))"

text \<open>
  The invariant of play: the array is 5 by 5, the chef stands in the interior, and the
  cells that hold code 1 are exactly the chef's cell.
\<close>

definition play_inv :: "game \<Rightarrow> bool" where
  "play_inv s \<longleftrightarrow>
     shape (board s) \<and> interior (chef_x s) (chef_y s) \<and>
     (\<forall>x y. on_board x y \<longrightarrow> (cell (board s) x y = 1 \<longleftrightarrow> x = chef_x s \<and> y = chef_y s))"

section \<open>Lemmas\<close>

subsection \<open>The array\<close>

lemma shape_put:
  assumes "shape b"
  shows "shape (put b x y v)"
proof (cases "nat x < length b")
  case True
  with assms show ?thesis
    by (auto simp: shape_def put_def list_all_length nth_list_update)
next
  case False
  then have "b[nat x := (b ! nat x)[nat y := v]] = b" by (intro list_update_beyond) simp
  with assms show ?thesis by (simp add: put_def)
qed

lemma cell_put:
  "shape b \<Longrightarrow> on_board x y \<Longrightarrow> on_board x' y' \<Longrightarrow>
   cell (put b x y v) x' y' = (if x' = x \<and> y' = y then v else cell b x' y')"
  by (auto simp: shape_def put_def cell_def on_board_def list_all_length nth_list_update)

lemma shape_init_board: "shape init_board"
  by (simp add: shape_def init_board_def list_all_iff)

lemma cell_init_board:
  assumes "on_board x y"
  shows "cell init_board x y = init_cell (nat x) (nat y)"
proof -
  from assms have "nat x < 5" "nat y < 5" by (auto simp: on_board_def)
  then show ?thesis by (simp add: cell_def init_board_def)
qed

lemma sum_list_zero: "(\<forall>j<length xs. f (xs ! j) = (0::nat)) \<Longrightarrow> sum_list (map f xs) = 0"
  by (auto simp: in_set_conv_nth)

lemma sum_list_single:
  fixes f :: "'a \<Rightarrow> nat"
  assumes "i < length xs" and "\<forall>j<length xs. j \<noteq> i \<longrightarrow> f (xs ! j) = 0"
  shows "sum_list (map f xs) = f (xs ! i)"
proof -
  have xs: "xs = take i xs @ xs ! i # drop (Suc i) xs"
    using assms(1) by (rule id_take_nth_drop)
  have a: "sum_list (map f (take i xs)) = 0"
    using assms by (intro sum_list_zero) auto
  have b: "sum_list (map f (drop (Suc i) xs)) = 0"
    using assms by (intro sum_list_zero) auto
  have "sum_list (map f xs) = sum_list (map f (take i xs @ xs ! i # drop (Suc i) xs))"
    using xs by simp
  then show ?thesis using a b by simp
qed

lemma count_list_sum: "count_list xs c = sum_list (map (\<lambda>v. if v = c then 1 else 0) xs)"
  by (induction xs) auto

lemma count_concat: "count_list (concat b) c = sum_list (map (\<lambda>r. count_list r c) b)"
  by (induction b) auto

lemma count_cells_one:
  assumes sh: "shape b" and xy: "on_board x y"
    and only: "\<forall>x' y'. on_board x' y' \<longrightarrow> (cell b x' y' = c \<longleftrightarrow> x' = x \<and> y' = y)"
  shows "count_cells b c = 1"
proof -
  have lb: "length b = 5" and lr: "\<And>i. i < 5 \<Longrightarrow> length (b ! i) = 5"
    using sh by (auto simp: shape_def list_all_length)
  have at: "\<And>i j. i < 5 \<Longrightarrow> j < 5 \<Longrightarrow> (b ! i ! j = c \<longleftrightarrow> int i = x \<and> int j = y)"
  proof -
    fix i j :: nat assume "i < 5" "j < 5"
    then have "on_board (int i) (int j)" by (simp add: on_board_def)
    with only have "cell b (int i) (int j) = c \<longleftrightarrow> int i = x \<and> int j = y" by blast
    then show "b ! i ! j = c \<longleftrightarrow> int i = x \<and> int j = y" by (simp add: cell_def)
  qed
  have nx: "nat x < 5" and ny: "nat y < 5" and ix: "int (nat x) = x" and iy: "int (nat y) = y"
    using xy by (auto simp: on_board_def)
  have other: "\<And>i. i < 5 \<Longrightarrow> i \<noteq> nat x \<Longrightarrow> count_list (b ! i) c = 0"
  proof -
    fix i assume i: "i < 5" "i \<noteq> nat x"
    have "sum_list (map (\<lambda>v. if v = c then 1 else 0) (b ! i)) = (0::nat)"
      using i at[of i] lr[of i] ix by (intro sum_list_zero) auto
    then show "count_list (b ! i) c = 0" by (simp add: count_list_sum)
  qed
  have row: "count_list (b ! nat x) c = 1"
  proof -
    have "sum_list (map (\<lambda>v. if v = c then 1 else 0) (b ! nat x))
        = (if b ! nat x ! nat y = c then 1 else (0::nat))"
      using at[of "nat x"] lr[of "nat x"] nx ny iy by (intro sum_list_single) auto
    also have "\<dots> = 1" using at[of "nat x" "nat y"] nx ny ix iy by simp
    finally show ?thesis by (simp add: count_list_sum)
  qed
  have "sum_list (map (\<lambda>r. count_list r c) b) = count_list (b ! nat x) c"
    using lb nx other by (intro sum_list_single) auto
  then show ?thesis using row by (simp add: count_cells_def count_concat)
qed

subsection \<open>Selection without replacement\<close>

lemma length_erase: "i < length xs \<Longrightarrow> length (erase xs i) = length xs - 1"
  by (simp add: erase_def)

lemma set_erase_subset: "set (erase xs i) \<subseteq> set xs"
  by (auto simp: erase_def dest: in_set_takeD in_set_dropD)

lemma distinct_erase:
  assumes "distinct xs"
  shows "distinct (erase xs i)"
proof -
  have "distinct (take i xs @ drop i xs)" using assms by simp
  then have "distinct (take i xs)" and "distinct (drop i xs)"
    and "set (take i xs) \<inter> set (drop i xs) = {}"
    by (simp_all only: distinct_append)
  moreover have "set (drop (Suc i) xs) \<subseteq> set (drop i xs)"
    by (simp add: set_drop_subset_set_drop)
  moreover have "distinct (drop (Suc i) xs)" using assms by simp
  ultimately show ?thesis unfolding erase_def by (auto simp only: distinct_append)
qed

lemma nth_notin_erase:
  assumes "distinct xs" "i < length xs"
  shows "xs ! i \<notin> set (erase xs i)"
proof -
  have xs: "xs = take i xs @ xs ! i # drop (Suc i) xs"
    using assms(2) by (rule id_take_nth_drop)
  have "distinct (take i xs @ xs ! i # drop (Suc i) xs)"
    using assms(1) xs by simp
  then show ?thesis by (auto simp: erase_def)
qed

lemma length_remaining: "i \<le> length cs \<Longrightarrow> length (remaining rs cs i) = length cs - i"
proof (induction i)
  case 0
  then show ?case by simp
next
  case (Suc i)
  then have "length (remaining rs cs i) = length cs - i" by simp
  moreover from Suc.prems have "0 < length cs - i" by simp
  ultimately show ?case by (simp add: length_erase)
qed

lemma set_remaining_Suc: "set (remaining rs cs (Suc i)) \<subseteq> set (remaining rs cs i)"
  by (simp add: set_erase_subset)

lemma set_remaining_mono: "i \<le> j \<Longrightarrow> set (remaining rs cs j) \<subseteq> set (remaining rs cs i)"
proof (induction j)
  case 0
  then show ?case by simp
next
  case (Suc j)
  show ?case
  proof (cases "i = Suc j")
    case True
    then show ?thesis by simp
  next
    case False
    with Suc have "set (remaining rs cs j) \<subseteq> set (remaining rs cs i)" by simp
    with set_remaining_Suc[of rs cs j] show ?thesis by blast
  qed
qed

lemma distinct_remaining: "distinct cs \<Longrightarrow> distinct (remaining rs cs i)"
  by (induction i) (simp_all add: distinct_erase)

lemma chosen_in_remaining:
  assumes "i < length cs"
  shows "chosen rs cs i \<in> set (remaining rs cs i)"
proof -
  have "0 < length (remaining rs cs i)" using assms by (simp add: length_remaining)
  then show ?thesis by (simp add: chosen_def)
qed

lemma chosen_in_set: "i < length cs \<Longrightarrow> chosen rs cs i \<in> set cs"
  using chosen_in_remaining[of i cs rs] set_remaining_mono[of 0 i rs cs] by auto

lemma chosen_notin_later:
  assumes "distinct cs" "i < length cs"
  shows "chosen rs cs i \<notin> set (remaining rs cs (Suc i))"
proof -
  have "0 < length (remaining rs cs i)" using assms by (simp add: length_remaining)
  then have "rand rs i mod length (remaining rs cs i) < length (remaining rs cs i)" by simp
  with distinct_remaining[OF assms(1), of rs i] show ?thesis
    by (simp add: chosen_def nth_notin_erase)
qed

lemma chosen_neq:
  assumes "distinct cs" "i < j" "j < length cs"
  shows "chosen rs cs i \<noteq> chosen rs cs j"
proof
  assume eq: "chosen rs cs i = chosen rs cs j"
  have "chosen rs cs j \<in> set (remaining rs cs j)" using assms by (simp add: chosen_in_remaining)
  moreover have "set (remaining rs cs j) \<subseteq> set (remaining rs cs (Suc i))"
    using assms by (intro set_remaining_mono) simp
  ultimately have "chosen rs cs i \<in> set (remaining rs cs (Suc i))" using eq by auto
  moreover have "chosen rs cs i \<notin> set (remaining rs cs (Suc i))"
    using assms by (intro chosen_notin_later) auto
  ultimately show False by simp
qed

lemma spawnFood_loop_places:
  assumes "\<forall>c\<in>set cs. on_board (fst c) (snd c)"
  shows "i + n \<le> length cs \<Longrightarrow>
         spawnFood_loop n i rs (length (remaining rs cs i)) (remaining rs cs i) b
         = Inr (fold (place rs cs) [i..<i + n] b)"
proof (induction n arbitrary: i b)
  case 0
  then show ?case by simp
next
  case (Suc n)
  let ?cs = "remaining rs cs i"
  let ?ind = "rand rs i mod length ?cs"
  have len: "length ?cs = length cs - i" using Suc.prems by (simp add: length_remaining)
  then have pos: "0 < length ?cs" using Suc.prems by simp
  then have ind: "?ind < length ?cs" by simp
  have "chosen rs cs i \<in> set cs" using Suc.prems by (intro chosen_in_set) simp
  with assms have ob: "on_board (fst (chosen rs cs i)) (snd (chosen rs cs i))" by blast
  have next_len: "length ?cs - 1 = length (remaining rs cs (Suc i))"
    using ind by (simp add: length_erase)
  have IH: "spawnFood_loop n (Suc i) rs (length (remaining rs cs (Suc i)))
              (remaining rs cs (Suc i)) (place rs cs i b)
            = Inr (fold (place rs cs) [Suc i..<Suc i + n] (place rs cs i b))"
    using Suc.prems by (intro Suc.IH) simp
  have step: "spawnFood_loop (Suc n) i rs (length ?cs) ?cs b
      = spawnFood_loop n (Suc i) rs (length ?cs - 1) (erase ?cs ?ind) (place rs cs i b)"
    using pos ind ob by (simp add: write_cell_def place_def chosen_def Let_def)
  have "[i..<i + Suc n] = i # [Suc i..<Suc i + n]" by (simp add: upt_rec)
  then show ?case using step IH next_len by simp
qed

lemma spawnFood_places:
  assumes "\<forall>c\<in>set cs. on_board (fst c) (snd c)" "4 \<le> length cs"
  shows "spawnFood rs cs b
         = Inr (place rs cs 3 (place rs cs 2 (place rs cs 1 (place rs cs 0 b))))"
proof -
  have "spawnFood_loop 4 0 rs (length (remaining rs cs 0)) (remaining rs cs 0) b
        = Inr (fold (place rs cs) [0..<0 + 4] b)"
    using assms by (intro spawnFood_loop_places) auto
  moreover have "[0..<0 + 4] = [0, 1, 2, Suc 2]" by (simp add: upt_rec)
  ultimately show ?thesis by (simp add: spawnFood_def numeral_3_eq_3)
qed

subsection \<open>The board that initBoard makes\<close>

lemma fillIn_on_board: "\<forall>c\<in>set fillIn. on_board (fst c) (snd c)"
  by (simp add: fillIn_def on_board_def)

lemma fillIn_perimeter: "c \<in> set fillIn \<Longrightarrow> perimeter (fst c) (snd c)"
  by (auto simp: fillIn_def perimeter_def on_board_def)

lemma length_fillIn: "length fillIn = 12"
  by (simp add: fillIn_def)

lemma distinct_fillIn: "distinct fillIn"
  by (simp add: fillIn_def)

lemma spawnFood_fillIn: "spawnFood rs fillIn init_board = Inr (spawned rs)"
  unfolding spawned_def
  by (rule spawnFood_places) (simp_all add: fillIn_on_board length_fillIn)

lemma initBoard_eq: "initBoard rs s = Inr (s\<lparr>board := spawned rs, chef_x := 2, chef_y := 2\<rparr>)"
  by (simp add: initBoard_def spawnFood_fillIn)

lemma chosen_fillIn: "i < 4 \<Longrightarrow> chosen rs fillIn i \<in> set fillIn"
  by (rule chosen_in_set) (simp add: length_fillIn)

lemma chosen_fillIn_neq: "i < j \<Longrightarrow> j < 4 \<Longrightarrow> chosen rs fillIn i \<noteq> chosen rs fillIn j"
  by (rule chosen_neq) (simp_all add: length_fillIn distinct_fillIn)

lemma chosen_on_board: "i < 4 \<Longrightarrow> on_board (fst (chosen rs fillIn i)) (snd (chosen rs fillIn i))"
  using chosen_fillIn[of i rs] fillIn_on_board by blast

lemma shape_place: "shape b \<Longrightarrow> shape (place rs cs i b)"
  by (simp add: place_def shape_put)

lemma cell_place:
  "shape b \<Longrightarrow> i < 4 \<Longrightarrow> on_board x y \<Longrightarrow>
   cell (place rs fillIn i b) x y = (if (x, y) = chosen rs fillIn i then item_code i else cell b x y)"
  using chosen_on_board[of i rs]
  by (auto simp: place_def cell_put prod_eq_iff)

lemma shape_spawned: "shape (spawned rs)"
  by (simp add: spawned_def shape_place shape_init_board)

lemma cell_spawned:
  assumes "on_board x y"
  shows "cell (spawned rs) x y =
    (if (x, y) = chosen rs fillIn 3 then 5
     else if (x, y) = chosen rs fillIn 2 then 4
     else if (x, y) = chosen rs fillIn 1 then 2
     else if (x, y) = chosen rs fillIn 0 then 3
     else init_cell (nat x) (nat y))"
  using assms
  by (simp add: spawned_def cell_place shape_place shape_init_board cell_init_board item_code_def)

lemma init_cell_values: "init_cell i j = 0 \<or> init_cell i j = 1 \<or> init_cell i j = 6"
  by (simp add: init_cell_def)

lemma init_cell_chef: "on_board x y \<Longrightarrow> init_cell (nat x) (nat y) = 1 \<longleftrightarrow> x = 2 \<and> y = 2"
  by (auto simp: init_cell_def on_board_def)

lemma chosen_not_centre: "i < 4 \<Longrightarrow> chosen rs fillIn i \<noteq> (2, 2)"
  using chosen_fillIn[of i rs] by (auto simp: fillIn_def)

lemma cell_spawned_chef:
  assumes "on_board x y"
  shows "cell (spawned rs) x y = 1 \<longleftrightarrow> x = 2 \<and> y = 2"
  using assms chosen_not_centre[of 0 rs] chosen_not_centre[of 1 rs]
    chosen_not_centre[of 2 rs] chosen_not_centre[of 3 rs]
  by (auto simp: cell_spawned init_cell_chef)

lemma inv_initBoard: "play_inv (s\<lparr>board := spawned rs, chef_x := 2, chef_y := 2\<rparr>)"
  by (simp add: play_inv_def shape_spawned interior_def cell_spawned_chef)

lemma cell_spawned_item:
  assumes "on_board x y" "i < 4"
  shows "cell (spawned rs) x y = item_code i \<longleftrightarrow> (x, y) = chosen rs fillIn i"
proof -
  have d: "chosen rs fillIn 0 \<noteq> chosen rs fillIn 1" "chosen rs fillIn 0 \<noteq> chosen rs fillIn 2"
    "chosen rs fillIn 0 \<noteq> chosen rs fillIn 3" "chosen rs fillIn 1 \<noteq> chosen rs fillIn 2"
    "chosen rs fillIn 1 \<noteq> chosen rs fillIn 3" "chosen rs fillIn 2 \<noteq> chosen rs fillIn 3"
    by (simp_all add: chosen_fillIn_neq)
  from assms(2) have "i = 0 \<or> i = 1 \<or> i = 2 \<or> i = 3" by arith
  then show ?thesis
    using d init_cell_values[of "nat x" "nat y"] assms(1)
    by (auto simp: cell_spawned item_code_def)
qed

lemma count_spawned_item: "i < 4 \<Longrightarrow> count_cells (spawned rs) (item_code i) = 1"
  using chosen_on_board[of i rs]
  by (intro count_cells_one[where x = "fst (chosen rs fillIn i)" and y = "snd (chosen rs fillIn i)"])
     (auto simp: shape_spawned cell_spawned_item prod_eq_iff)

lemma spawnFood_loop_fails:
  assumes "\<forall>c\<in>set cs. on_board (fst c) (snd c)"
  shows "i \<le> length cs \<Longrightarrow> length cs < i + n \<Longrightarrow>
         spawnFood_loop n i rs (length (remaining rs cs i)) (remaining rs cs i) b
         = Inl ModuloByZero"
proof (induction n arbitrary: i b)
  case 0
  then show ?case by simp
next
  case (Suc n)
  let ?cs = "remaining rs cs i"
  let ?ind = "rand rs i mod length ?cs"
  have len: "length ?cs = length cs - i" using Suc.prems by (simp add: length_remaining)
  show ?case
  proof (cases "i = length cs")
    case True
    with len show ?thesis by simp
  next
    case False
    with Suc.prems have i: "i < length cs" by simp
    with len have pos: "0 < length ?cs" by simp
    then have ind: "?ind < length ?cs" by simp
    have "chosen rs cs i \<in> set cs" using i by (rule chosen_in_set)
    with assms have ob: "on_board (fst (chosen rs cs i)) (snd (chosen rs cs i))" by blast
    have next_len: "length ?cs - 1 = length (remaining rs cs (Suc i))"
      using ind by (simp add: length_erase)
    have IH: "spawnFood_loop n (Suc i) rs (length (remaining rs cs (Suc i)))
                (remaining rs cs (Suc i)) (place rs cs i b) = Inl ModuloByZero"
      using Suc.prems i by (intro Suc.IH) simp_all
    have step: "spawnFood_loop (Suc n) i rs (length ?cs) ?cs b
        = spawnFood_loop n (Suc i) rs (length ?cs - 1) (erase ?cs ?ind) (place rs cs i b)"
      using pos ind ob by (simp add: write_cell_def place_def chosen_def Let_def)
    show ?thesis using step IH next_len by simp
  qed
qed

subsection \<open>The invariant of play\<close>

lemma getFood_result:
  assumes "on_board (fst (target dir s)) (snd (target dir s))"
  shows "getFood rs dir s =
    (let x = fst (target dir s); y = snd (target dir s); item = cell (board s) x y in
     if item = 5 then
       (if all_collected s then
          Inr (s\<lparr>win_PB := False, win_J := False, win_bread := False,
                board := spawned rs, chef_x := 2, chef_y := 2\<rparr>)
        else Inr s)
     else if item = 3 then Inr (s\<lparr>win_PB := True, board := put (board s) x y 6\<rparr>)
     else if item = 2 then Inr (s\<lparr>win_J := True, board := put (board s) x y 6\<rparr>)
     else if item = 4 then Inr (s\<lparr>win_bread := True, board := put (board s) x y 6\<rparr>)
     else Inr s)"
  using assms
  by (auto simp: getFood_def read_cell_def write_cell_def initBoard_eq Let_def all_collected_def)

lemma inv_put_6:
  assumes "play_inv s" "on_board x y" "cell (board s) x y \<noteq> 1"
  shows "play_inv (s\<lparr>board := put (board s) x y 6\<rparr>)"
  using assms by (auto simp: play_inv_def shape_put cell_put)

lemma inv_getFood:
  assumes "play_inv s" "on_board (fst (target dir s)) (snd (target dir s))"
  shows "\<exists>s'. getFood rs dir s = Inr s' \<and> play_inv s'"
proof -
  let ?x = "fst (target dir s)" and ?y = "snd (target dir s)"
  have put6: "cell (board s) ?x ?y \<noteq> 1 \<Longrightarrow> play_inv (s\<lparr>board := put (board s) ?x ?y 6\<rparr>)"
    using assms by (intro inv_put_6)
  have flags: "\<And>g. play_inv g \<Longrightarrow> play_inv (g\<lparr>win_PB := True\<rparr>) \<and> play_inv (g\<lparr>win_J := True\<rparr>) \<and> play_inv (g\<lparr>win_bread := True\<rparr>)"
    by (simp add: play_inv_def)
  have win: "play_inv (s\<lparr>win_PB := False, win_J := False, win_bread := False,
                board := spawned rs, chef_x := 2, chef_y := 2\<rparr>)"
    using inv_initBoard[where rs = rs and s = "s\<lparr>win_PB := False, win_J := False, win_bread := False\<rparr>"] by simp
  show ?thesis
    using assms(1) put6 win
    by (auto simp: getFood_result[OF assms(2)] Let_def play_inv_def)
qed

lemma inv_move_chef:
  assumes "play_inv s" "interior (chef_x s + dx) (chef_y s + dy)"
  shows "\<exists>s'. move_chef dx dy s = Inr s' \<and> play_inv s'"
proof -
  have c: "on_board (chef_x s) (chef_y s)" using assms(1) by (auto simp: play_inv_def interior_def on_board_def)
  have n: "on_board (chef_x s + dx) (chef_y s + dy)" using assms(2) by (auto simp: interior_def on_board_def)
  have sh: "shape (board s)" using assms(1) by (simp add: play_inv_def)
  have one: "\<And>x y. on_board x y \<Longrightarrow> (cell (board s) x y = 1 \<longleftrightarrow> x = chef_x s \<and> y = chef_y s)"
    using assms(1) by (simp add: play_inv_def)
  let ?b = "put (put (board s) (chef_x s) (chef_y s) 0) (chef_x s + dx) (chef_y s + dy) 1"
  have "move_chef dx dy s = Inr (s\<lparr>board := ?b, chef_x := chef_x s + dx, chef_y := chef_y s + dy\<rparr>)"
    using c n by (simp add: move_chef_def write_cell_def)
  moreover have "play_inv (s\<lparr>board := ?b, chef_x := chef_x s + dx, chef_y := chef_y s + dy\<rparr>)"
    using sh c n assms(2) one by (auto simp: play_inv_def shape_put cell_put)
  ultimately show ?thesis by simp
qed

lemma inv_handle_event:
  assumes "play_inv s"
  shows "\<exists>r s'. handle_event rs evt s = Inr (r, s') \<and> play_inv s'"
proof (cases "ev_type evt = SDL_KEYDOWN \<and> key_repeat evt = 0")
  case False
  with assms show ?thesis by (auto simp: handle_event_def)
next
  case True
  have int: "interior (chef_x s) (chef_y s)" using assms by (simp add: play_inv_def)
  show ?thesis
  proof (cases "key_scancode evt")
    case SDL_SCANCODE_UP
    have "\<exists>s1. (if chef_x s = 3 then getFood rs 1 s else Inr s) = Inr s1 \<and> play_inv s1"
      using assms int inv_getFood[of s 1 rs] by (auto simp: target_def interior_def on_board_def)
    then obtain s1 where s1: "(if chef_x s = 3 then getFood rs 1 s else Inr s) = Inr s1" "play_inv s1"
      by blast
    have "\<exists>s2. (if chef_x s1 < 3 then move_chef 1 0 s1 else Inr s1) = Inr s2 \<and> play_inv s2"
      using s1(2) inv_move_chef[of s1 1 0] by (auto simp: play_inv_def interior_def)
    then obtain s2 where s2: "(if chef_x s1 < 3 then move_chef 1 0 s1 else Inr s1) = Inr s2" "play_inv s2"
      by blast
    show ?thesis using True SDL_SCANCODE_UP s1 s2 by (auto simp: handle_event_def)
  next
    case SDL_SCANCODE_DOWN
    have "\<exists>s1. (if chef_x s = 1 then getFood rs 0 s else Inr s) = Inr s1 \<and> play_inv s1"
      using assms int inv_getFood[of s 0 rs] by (auto simp: target_def interior_def on_board_def)
    then obtain s1 where s1: "(if chef_x s = 1 then getFood rs 0 s else Inr s) = Inr s1" "play_inv s1"
      by blast
    have "\<exists>s2. (if chef_x s1 > 1 then move_chef (- 1) 0 s1 else Inr s1) = Inr s2 \<and> play_inv s2"
      using s1(2) inv_move_chef[of s1 "- 1" 0] by (auto simp: play_inv_def interior_def)
    then obtain s2 where s2: "(if chef_x s1 > 1 then move_chef (- 1) 0 s1 else Inr s1) = Inr s2" "play_inv s2"
      by blast
    show ?thesis using True SDL_SCANCODE_DOWN s1 s2 by (auto simp: handle_event_def)
  next
    case SDL_SCANCODE_LEFT
    have "\<exists>s1. (if chef_y s = 1 then getFood rs 2 s else Inr s) = Inr s1 \<and> play_inv s1"
      using assms int inv_getFood[of s 2 rs] by (auto simp: target_def interior_def on_board_def)
    then obtain s1 where s1: "(if chef_y s = 1 then getFood rs 2 s else Inr s) = Inr s1" "play_inv s1"
      by blast
    have "\<exists>s2. (if chef_y s1 > 1 then move_chef 0 (- 1) s1 else Inr s1) = Inr s2 \<and> play_inv s2"
      using s1(2) inv_move_chef[of s1 0 "- 1"] by (auto simp: play_inv_def interior_def)
    then obtain s2 where s2: "(if chef_y s1 > 1 then move_chef 0 (- 1) s1 else Inr s1) = Inr s2" "play_inv s2"
      by blast
    show ?thesis using True SDL_SCANCODE_LEFT s1 s2 by (auto simp: handle_event_def)
  next
    case SDL_SCANCODE_RIGHT
    have "\<exists>s1. (if chef_y s = 3 then getFood rs 3 s else Inr s) = Inr s1 \<and> play_inv s1"
      using assms int inv_getFood[of s 3 rs] by (auto simp: target_def interior_def on_board_def)
    then obtain s1 where s1: "(if chef_y s = 3 then getFood rs 3 s else Inr s) = Inr s1" "play_inv s1"
      by blast
    have "\<exists>s2. (if chef_y s1 < 3 then move_chef 0 1 s1 else Inr s1) = Inr s2 \<and> play_inv s2"
      using s1(2) inv_move_chef[of s1 0 1] by (auto simp: play_inv_def interior_def)
    then obtain s2 where s2: "(if chef_y s1 < 3 then move_chef 0 1 s1 else Inr s1) = Inr s2" "play_inv s2"
      by blast
    show ?thesis using True SDL_SCANCODE_RIGHT s1 s2 by (auto simp: handle_event_def)
  next
    case SDL_SCANCODE_OTHER
    with True assms show ?thesis by (auto simp: handle_event_def)
  qed
qed

lemma inv_run: "play_inv s \<Longrightarrow> \<exists>s'. run cs s = Inr s' \<and> play_inv s'"
proof (induction cs arbitrary: s)
  case Nil
  then show ?case by simp
next
  case (Cons c cs)
  show ?case
  proof (cases c)
    case (Initialize rs)
    have "play_inv (s\<lparr>board := spawned rs, chef_x := 2, chef_y := 2\<rparr>)" by (rule inv_initBoard)
    from Cons.IH[OF this] show ?thesis using Initialize by (simp add: initBoard_eq)
  next
    case (Handle rs evt)
    from inv_handle_event[OF Cons.prems, of rs evt]
    obtain r s1 where h: "handle_event rs evt s = Inr (r, s1)" "play_inv s1" by blast
    from Cons.IH[OF h(2)] show ?thesis using Handle h(1) by simp
  qed
qed

lemma inv_play: "\<exists>s'. play rs s cs = Inr s' \<and> play_inv s'"
  using inv_run[OF inv_initBoard[where rs = rs and s = s], of cs] by (simp add: play_def initBoard_eq)

lemma inv_count: 
  assumes "play_inv s" shows "count_cells (board s) 1 = 1"
proof -
  have "on_board (chef_x s) (chef_y s)" using assms by (auto simp: play_inv_def interior_def on_board_def)
  then show ?thesis
    using assms by (intro count_cells_one[where x = "chef_x s" and y = "chef_y s"]) (auto simp: play_inv_def)
qed

subsection \<open>One arrow-key branch of handle_event\<close>

lemma getFood_edge:
  assumes "on_board (fst (target dir s)) (snd (target dir s))"
  shows "\<exists>s1. getFood rs dir s = Inr s1 \<and>
     (if cell (board s) (fst (target dir s)) (snd (target dir s)) = 5 \<and> all_collected s
      then chef_x s1 = 2 \<and> chef_y s1 = 2
      else chef_x s1 = chef_x s \<and> chef_y s1 = chef_y s \<and>
        (cell (board s) (fst (target dir s)) (snd (target dir s)) \<notin> {2, 3, 4} \<longrightarrow> s1 = s))"
  by (simp add: getFood_result[OF assms] Let_def)

lemma move_chef_ok:
  assumes "interior (chef_x s) (chef_y s)" "\<bar>dx\<bar> \<le> 1" "\<bar>dy\<bar> \<le> 1"
  shows "\<exists>s2. move_chef dx dy s = Inr s2"
proof -
  have "on_board (chef_x s) (chef_y s)" "on_board (chef_x s + dx) (chef_y s + dy)"
    using assms unfolding on_board_def interior_def by linarith+
  then show ?thesis by (simp add: move_chef_def write_cell_def)
qed

lemma branch_returns:
  assumes "interior (chef_x s) (chef_y s)"
    and "e \<Longrightarrow> on_board (fst (target dir s)) (snd (target dir s))"
    and "\<bar>dx\<bar> \<le> 1" "\<bar>dy\<bar> \<le> 1"
  shows "\<exists>s'. (case (if e then getFood rs dir s else Inr s) of
                 Inl x \<Rightarrow> Inl x
               | Inr s1 \<Rightarrow>
                   (case (if can s1 then move_chef dx dy s1 else Inr s1) of
                      Inl x \<Rightarrow> Inl x
                    | Inr s2 \<Rightarrow> Inr (True, s2))) = Inr (True, s')"
proof -
  have "\<exists>s1. (if e then getFood rs dir s else Inr s) = Inr s1 \<and> interior (chef_x s1) (chef_y s1)"
  proof (cases e)
    case True
    from getFood_edge[OF assms(2)[OF True], of rs]
    obtain s1 where "getFood rs dir s = Inr s1"
      "(chef_x s1 = 2 \<and> chef_y s1 = 2) \<or> (chef_x s1 = chef_x s \<and> chef_y s1 = chef_y s)"
      by (auto split: if_splits)
    with True assms(1) show ?thesis by (auto simp: interior_def)
  next
    case False
    with assms(1) show ?thesis by simp
  qed
  then obtain s1 where s1: "(if e then getFood rs dir s else Inr s) = Inr s1"
    "interior (chef_x s1) (chef_y s1)" by blast
  from move_chef_ok[OF s1(2) assms(3,4)] obtain s2 where "move_chef dx dy s1 = Inr s2" by blast
  with s1(1) show ?thesis by simp
qed

lemma edge_branch:
  assumes ob: "on_board (fst (target dir s)) (snd (target dir s))"
    and stay: "\<And>g. chef_x g = chef_x s \<Longrightarrow> chef_y g = chef_y s \<Longrightarrow> \<not> can g"
    and d: "\<bar>dx\<bar> \<le> 1" "\<bar>dy\<bar> \<le> 1"
    and item: "item = cell (board s) (fst (target dir s)) (snd (target dir s))"
  shows "\<exists>s'. (case getFood rs dir s of
                 Inl x \<Rightarrow> Inl x
               | Inr s1 \<Rightarrow>
                   (case (if can s1 then move_chef dx dy s1 else Inr s1) of
                      Inl x \<Rightarrow> Inl x
                    | Inr s2 \<Rightarrow> Inr (True, s2))) = Inr (True, s') \<and>
          (\<not> (item = 5 \<and> all_collected s) \<longrightarrow>
             chef_x s' = chef_x s \<and> chef_y s' = chef_y s \<and> (item \<notin> {2, 3, 4} \<longrightarrow> s' = s))"
proof (cases "item = 5 \<and> all_collected s")
  case True
  from getFood_edge[OF ob, of rs] True item
  obtain s1 where s1: "getFood rs dir s = Inr s1" "chef_x s1 = 2" "chef_y s1 = 2" by auto
  have "interior (chef_x s1) (chef_y s1)" using s1 by (simp add: interior_def)
  from move_chef_ok[OF this d] obtain s2 where "move_chef dx dy s1 = Inr s2" by blast
  with s1(1) True show ?thesis by simp
next
  case False
  from getFood_edge[OF ob, of rs] False item
  obtain s1 where s1: "getFood rs dir s = Inr s1" "chef_x s1 = chef_x s" "chef_y s1 = chef_y s"
    "item \<notin> {2, 3, 4} \<longrightarrow> s1 = s" by auto
  have "\<not> can s1" using s1 stay by blast
  with s1 False show ?thesis by simp
qed

section \<open>The claims\<close>

subsection \<open>initBoard and spawnFood\<close>

text \<open>
  Claim C5, as amended. For every state and every four draws \<^verbatim>\<open>initBoard\<close> returns
  normally; it replaces the board by the one \<open>spawnFood\<close> makes from the initial board,
  where the chef's code 1 is at (2,2) and nowhere else, and sets the chef's position to
  (2,2). Every other field, the three flags of \<^verbatim>\<open>win\<close> among them, keeps its value:
  \<^verbatim>\<open>initBoard\<close> does not assign them. (\<^verbatim>\<open>getFood\<close> clears them before it calls
  \<^verbatim>\<open>initBoard\<close> on a win.)
\<close>

theorem initBoard_keeps_flags:
  "\<exists>s'. initBoard rs s = Inr s' \<and>
        win_PB s' = win_PB s \<and> win_J s' = win_J s \<and> win_bread s' = win_bread s \<and>
        chef_x s' = 2 \<and> chef_y s' = 2 \<and>
        spawnFood rs fillIn init_board = Inr (board s') \<and>
        cell (board s') 2 2 = 1 \<and> count_cells (board s') 1 = 1"
proof -
  have "cell (spawned rs) 2 2 = 1" by (simp add: cell_spawned_chef on_board_def)
  moreover have "count_cells (spawned rs) 1 = 1"
    by (rule count_cells_one[where x = 2 and y = 2])
       (simp_all add: shape_spawned cell_spawned_chef on_board_def)
  ultimately show ?thesis by (simp add: initBoard_eq spawnFood_fillIn)
qed

text \<open>
  Claim C5 as stated fails: called by itself on a state whose three flags are set,
  \<^verbatim>\<open>initBoard\<close> returns a state whose three flags are still set.
\<close>

theorem initBoard_flags_counterexample:
  "initBoard (Draws 0 0 0 0)
     \<lparr>board = [[0,6,6,6,0],[6,0,0,0,6],[6,0,0,0,6],[6,1,0,0,6],[0,5,6,6,0]],
      chef_x = 3, chef_y = 1, win_PB = True, win_J = True, win_bread = True\<rparr>
   = Inr \<lparr>board = [[0,3,2,4,0],[5,0,0,0,6],[6,0,1,0,6],[6,0,0,0,6],[0,6,6,6,0]],
      chef_x = 2, chef_y = 2, win_PB = True, win_J = True, win_bread = True\<rparr>"
  by code_simp

text \<open>
  Claim C7, as amended. \<^verbatim>\<open>spawnFood\<close> has no check of the size of its argument and no
  error of its own. Given fewer than four cells, all of them on the board, it runs into
  \<^verbatim>\<open>rand() % len\<close> with \<^verbatim>\<open>len\<close> zero, which C++ leaves undefined; given four or more
  it returns normally.
\<close>

theorem spawnFood_too_few_cells:
  assumes "\<forall>c\<in>set cs. on_board (fst c) (snd c)"
  shows "(length cs < 4 \<longrightarrow> spawnFood rs cs b = Inl ModuloByZero) \<and>
         (4 \<le> length cs \<longrightarrow> (\<exists>b'. spawnFood rs cs b = Inr b'))"
proof (intro conjI impI)
  assume "length cs < 4"
  then have "spawnFood_loop 4 0 rs (length (remaining rs cs 0)) (remaining rs cs 0) b
             = Inl ModuloByZero"
    using assms by (intro spawnFood_loop_fails) simp_all
  then show "spawnFood rs cs b = Inl ModuloByZero" by (simp add: spawnFood_def)
next
  assume "4 \<le> length cs"
  with assms show "\<exists>b'. spawnFood rs cs b = Inr b'" by (simp add: spawnFood_places)
qed

theorem spawnFood_too_few_cells_witness:
  "spawnFood (Draws 7 7 7 7) [(0,1), (0,2), (0,3)] init_board = Inl ModuloByZero \<and>
   (\<exists>b'. spawnFood (Draws 7 7 7 7) [(0,1), (0,2), (0,3), (1,0)] init_board = Inr b')"
  using spawnFood_too_few_cells[of "[(0,1), (0,2), (0,3)]" "Draws 7 7 7 7" init_board]
    spawnFood_too_few_cells[of "[(0,1), (0,2), (0,3), (1,0)]" "Draws 7 7 7 7" init_board]
  by (simp add: on_board_def)

text \<open>
  Claim C7 as stated fails: with three candidate cells the call does not end in
  \<open>InsufficientSpawnCells\<close> but in the remainder by zero of the fourth iteration, after
  the first three iterations have placed peanut butter, jelly and bread.
\<close>

theorem spawnFood_no_InsufficientSpawnCells:
  "spawnFood (Draws 0 0 0 0) [(0,1), (0,2), (0,3)] init_board = Inl ModuloByZero \<and>
   spawnFood (Draws 0 0 0 0) [(0,1), (0,2), (0,3)] init_board \<noteq> Inl InsufficientSpawnCells \<and>
   spawnFood_loop 3 0 (Draws 0 0 0 0) 3 [(0,1), (0,2), (0,3)] init_board
     = Inr [[0,3,2,4,0],[6,0,0,0,6],[6,0,1,0,6],[6,0,0,0,6],[0,6,6,6,0]]"
  by code_simp

text \<open>
  Claim C6. For every state and every four draws \<^verbatim>\<open>initBoard\<close> returns a board on which
  exactly one cell holds peanut butter (3), exactly one jelly (2), exactly one bread (4)
  and exactly one the goal (5). The four cells are the ones taken from the candidate
  list without replacement, in this order: the first draw places the peanut butter, the
  second the jelly, the third the bread, the fourth the goal. They are pairwise distinct,
  each is one of the twelve distinct cells of \<open>fillIn\<close>, and each lies on the perimeter.
\<close>

theorem initBoard_items:
  "\<exists>s'. initBoard rs s = Inr s' \<and>
     count_cells (board s') 3 = 1 \<and> count_cells (board s') 2 = 1 \<and>
     count_cells (board s') 4 = 1 \<and> count_cells (board s') 5 = 1 \<and>
     cell (board s') (fst (chosen rs fillIn 0)) (snd (chosen rs fillIn 0)) = 3 \<and>
     cell (board s') (fst (chosen rs fillIn 1)) (snd (chosen rs fillIn 1)) = 2 \<and>
     cell (board s') (fst (chosen rs fillIn 2)) (snd (chosen rs fillIn 2)) = 4 \<and>
     cell (board s') (fst (chosen rs fillIn 3)) (snd (chosen rs fillIn 3)) = 5 \<and>
     distinct [chosen rs fillIn 0, chosen rs fillIn 1, chosen rs fillIn 2, chosen rs fillIn 3] \<and>
     list_all (\<lambda>c. c \<in> set fillIn \<and> perimeter (fst c) (snd c))
       [chosen rs fillIn 0, chosen rs fillIn 1, chosen rs fillIn 2, chosen rs fillIn 3] \<and>
     length fillIn = 12 \<and> distinct fillIn"
proof -
  have cnt: "count_cells (spawned rs) 3 = 1" "count_cells (spawned rs) 2 = 1"
    "count_cells (spawned rs) 4 = 1" "count_cells (spawned rs) 5 = 1"
    using count_spawned_item[of 0 rs] count_spawned_item[of 1 rs]
      count_spawned_item[of 2 rs] count_spawned_item[of 3 rs]
    by (simp_all add: item_code_def)
  have at: "\<And>i. i < 4 \<Longrightarrow>
      cell (spawned rs) (fst (chosen rs fillIn i)) (snd (chosen rs fillIn i)) = item_code i"
    by (simp add: cell_spawned_item chosen_on_board)
  have cells: "cell (spawned rs) (fst (chosen rs fillIn 0)) (snd (chosen rs fillIn 0)) = 3"
    "cell (spawned rs) (fst (chosen rs fillIn 1)) (snd (chosen rs fillIn 1)) = 2"
    "cell (spawned rs) (fst (chosen rs fillIn 2)) (snd (chosen rs fillIn 2)) = 4"
    "cell (spawned rs) (fst (chosen rs fillIn 3)) (snd (chosen rs fillIn 3)) = 5"
    using at[of 0] at[of 1] at[of 2] at[of 3] by (simp_all add: item_code_def)
  have dist: "distinct [chosen rs fillIn 0, chosen rs fillIn 1, chosen rs fillIn 2, chosen rs fillIn 3]"
    using chosen_fillIn_neq[of 0 1 rs] chosen_fillIn_neq[of 0 2 rs] chosen_fillIn_neq[of 0 3 rs]
      chosen_fillIn_neq[of 1 2 rs] chosen_fillIn_neq[of 1 3 rs] chosen_fillIn_neq[of 2 3 rs]
    by simp
  have mem: "list_all (\<lambda>c. c \<in> set fillIn \<and> perimeter (fst c) (snd c))
       [chosen rs fillIn 0, chosen rs fillIn 1, chosen rs fillIn 2, chosen rs fillIn 3]"
    using chosen_fillIn[of 0 rs] chosen_fillIn[of 1 rs] chosen_fillIn[of 2 rs]
      chosen_fillIn[of 3 rs]
    by (simp add: fillIn_perimeter)
  show ?thesis
    using cnt cells dist mem by (simp add: initBoard_eq length_fillIn distinct_fillIn)
qed

theorem initBoard_items_witness:
  "initBoard (Draws 12 23 7 100)
     \<lparr>board = [], chef_x = 0, chef_y = 0, win_PB = False, win_J = False, win_bread = False\<rparr>
   = Inr \<lparr>board = [[0,3,6,2,0],[5,0,0,0,4],[6,0,1,0,6],[6,0,0,0,6],[0,6,6,6,0]],
          chef_x = 2, chef_y = 2, win_PB = False, win_J = False, win_bread = False\<rparr> \<and>
   [chosen (Draws 12 23 7 100) fillIn 0, chosen (Draws 12 23 7 100) fillIn 1,
    chosen (Draws 12 23 7 100) fillIn 2, chosen (Draws 12 23 7 100) fillIn 3]
   = [(0,1), (0,3), (1,4), (1,0)] \<and>
   count_cells [[0,3,6,2,0],[5,0,0,0,4],[6,0,1,0,6],[6,0,0,0,6],[0,6,6,6,0]] 3 = 1"
proof -
  have a: "initBoard (Draws 12 23 7 100)
     \<lparr>board = [], chef_x = 0, chef_y = 0, win_PB = False, win_J = False, win_bread = False\<rparr>
   = Inr \<lparr>board = [[0,3,6,2,0],[5,0,0,0,4],[6,0,1,0,6],[6,0,0,0,6],[0,6,6,6,0]],
          chef_x = 2, chef_y = 2, win_PB = False, win_J = False, win_bread = False\<rparr>"
    by code_simp
  have b: "[chosen (Draws 12 23 7 100) fillIn 0, chosen (Draws 12 23 7 100) fillIn 1,
    chosen (Draws 12 23 7 100) fillIn 2, chosen (Draws 12 23 7 100) fillIn 3]
   = [(0,1), (0,3), (1,4), (1,0)]"
    by code_simp
  show ?thesis
    using a b initBoard_items[of "Draws 12 23 7 100"
      "\<lparr>board = [], chef_x = 0, chef_y = 0, win_PB = False, win_J = False, win_bread = False\<rparr>"]
    by auto
qed

subsection \<open>Invariants of play\<close>

text \<open>
  Claim C2. After the first \<^verbatim>\<open>initBoard\<close> and any sequence of further \<^verbatim>\<open>initBoard\<close>
  and \<^verbatim>\<open>handle_event\<close> calls, with any draws and any events, every call has returned
  normally and exactly one cell of the board holds the chef's code 1; it is the cell at
  the chef's position.
\<close>

theorem one_chef_cell:
  "\<exists>s'. play rs s cs = Inr s' \<and> count_cells (board s') 1 = 1 \<and>
        cell (board s') (chef_x s') (chef_y s') = 1"
proof -
  from inv_play[of rs s cs] obtain s' where s': "play rs s cs = Inr s'" "play_inv s'" by blast
  have "on_board (chef_x s') (chef_y s')"
    using s'(2) by (auto simp: play_inv_def interior_def on_board_def)
  with s'(2) have "cell (board s') (chef_x s') (chef_y s') = 1" by (simp add: play_inv_def)
  with s' inv_count[OF s'(2)] show ?thesis by blast
qed

theorem one_chef_cell_witness:
  "play (Draws 0 0 0 0)
     \<lparr>board = [], chef_x = 0, chef_y = 0, win_PB = False, win_J = False, win_bread = False\<rparr>
     whole_round
   = Inr \<lparr>board = [[0,6,6,6,0],[6,0,0,0,6],[6,1,0,0,6],[3,0,0,0,6],[0,2,4,5,0]],
      chef_x = 2, chef_y = 1, win_PB = False, win_J = False, win_bread = False\<rparr> \<and>
   count_cells [[0,6,6,6,0],[6,0,0,0,6],[6,1,0,0,6],[3,0,0,0,6],[0,2,4,5,0]] 1 = 1"
proof -
  have "play (Draws 0 0 0 0)
     \<lparr>board = [], chef_x = 0, chef_y = 0, win_PB = False, win_J = False, win_bread = False\<rparr>
     whole_round
   = Inr \<lparr>board = [[0,6,6,6,0],[6,0,0,0,6],[6,1,0,0,6],[3,0,0,0,6],[0,2,4,5,0]],
      chef_x = 2, chef_y = 1, win_PB = False, win_J = False, win_bread = False\<rparr>"
    by code_simp
  with one_chef_cell[of "Draws 0 0 0 0"
      "\<lparr>board = [], chef_x = 0, chef_y = 0, win_PB = False, win_J = False, win_bread = False\<rparr>"
      whole_round]
  show ?thesis by auto
qed

text \<open>
  Claim C10. After the first \<^verbatim>\<open>initBoard\<close> and any sequence of further \<^verbatim>\<open>initBoard\<close>
  and \<^verbatim>\<open>handle_event\<close> calls, wins and their resets among them, the chef's position
  lies in the interior: both coordinates are between 1 and 3.
\<close>

theorem chef_in_interior:
  "\<exists>s'. play rs s cs = Inr s' \<and> interior (chef_x s') (chef_y s')"
  using inv_play[of rs s cs] by (auto simp: play_inv_def)

theorem chef_in_interior_witness:
  "play (Draws 0 0 0 0)
     \<lparr>board = [], chef_x = 0, chef_y = 0, win_PB = False, win_J = False, win_bread = False\<rparr>
     (butlast whole_round)
   = Inr \<lparr>board = [[0,6,6,6,0],[5,1,0,0,6],[6,0,0,0,6],[6,0,0,0,6],[0,6,6,6,0]],
      chef_x = 1, chef_y = 1, win_PB = True, win_J = True, win_bread = True\<rparr> \<and>
   interior 1 1"
proof -
  have "play (Draws 0 0 0 0)
     \<lparr>board = [], chef_x = 0, chef_y = 0, win_PB = False, win_J = False, win_bread = False\<rparr>
     (butlast whole_round)
   = Inr \<lparr>board = [[0,6,6,6,0],[5,1,0,0,6],[6,0,0,0,6],[6,0,0,0,6],[0,6,6,6,0]],
      chef_x = 1, chef_y = 1, win_PB = True, win_J = True, win_bread = True\<rparr>"
    by code_simp
  with chef_in_interior[of "Draws 0 0 0 0"
      "\<lparr>board = [], chef_x = 0, chef_y = 0, win_PB = False, win_J = False, win_bread = False\<rparr>"
      "butlast whole_round"]
  show ?thesis by auto
qed

subsection \<open>getFood\<close>

text \<open>
  Claim C1. Let the cell that \<^verbatim>\<open>getFood\<close> reads be a perimeter cell that holds the goal
  (5). Then \<^verbatim>\<open>getFood\<close> returns normally, and the state it leaves is the start of a
  fresh round (the board newly spawned with the draws of this call, the chef at (2,2), the
  three flags cleared) if and only if the three flags were all set before the call; if one
  of them was not set, the state is unchanged.
\<close>

theorem getFood_goal:
  assumes "perimeter (fst (target dir s)) (snd (target dir s))"
    and "cell (board s) (fst (target dir s)) (snd (target dir s)) = 5"
  shows "\<exists>s'. getFood rs dir s = Inr s' \<and>
           (fresh_round rs s' \<longleftrightarrow> all_collected s) \<and>
           (\<not> all_collected s \<longrightarrow> s' = s)"
proof (cases "all_collected s")
  case True
  have ob: "on_board (fst (target dir s)) (snd (target dir s))"
    using assms(1) by (simp add: perimeter_def)
  show ?thesis
    using True assms(2)
    by (simp add: getFood_result[OF ob] fresh_round_def none_collected_def spawnFood_fillIn)
next
  case False
  have ob: "on_board (fst (target dir s)) (snd (target dir s))"
    using assms(1) by (simp add: perimeter_def)
  have "\<not> (chef_x s = 2 \<and> chef_y s = 2)"
    using assms(1) by (auto simp: perimeter_def target_def split: if_splits)
  then have "\<not> fresh_round rs s" by (auto simp: fresh_round_def)
  then show ?thesis
    using False assms(2) by (simp add: getFood_result[OF ob])
qed

theorem getFood_goal_witness:
  "getFood (Draws 0 0 0 0) 1
     \<lparr>board = [[0,6,6,6,0],[6,0,0,0,6],[6,0,0,0,6],[6,1,0,0,6],[0,5,6,6,0]],
      chef_x = 3, chef_y = 1, win_PB = True, win_J = True, win_bread = True\<rparr>
   = Inr \<lparr>board = [[0,3,2,4,0],[5,0,0,0,6],[6,0,1,0,6],[6,0,0,0,6],[0,6,6,6,0]],
      chef_x = 2, chef_y = 2, win_PB = False, win_J = False, win_bread = False\<rparr> \<and>
   fresh_round (Draws 0 0 0 0)
     \<lparr>board = [[0,3,2,4,0],[5,0,0,0,6],[6,0,1,0,6],[6,0,0,0,6],[0,6,6,6,0]],
      chef_x = 2, chef_y = 2, win_PB = False, win_J = False, win_bread = False\<rparr> \<and>
   getFood (Draws 0 0 0 0) 1
     \<lparr>board = [[0,6,6,6,0],[6,0,0,0,6],[6,0,0,0,6],[6,1,0,0,6],[0,5,6,6,0]],
      chef_x = 3, chef_y = 1, win_PB = True, win_J = False, win_bread = True\<rparr>
   = Inr \<lparr>board = [[0,6,6,6,0],[6,0,0,0,6],[6,0,0,0,6],[6,1,0,0,6],[0,5,6,6,0]],
      chef_x = 3, chef_y = 1, win_PB = True, win_J = False, win_bread = True\<rparr>"
proof -
  let ?b = "[[0,6,6,6,0],[6,0,0,0,6],[6,0,0,0,6],[6,1,0,0,6],[0,5,6,6,0]] :: board"
  let ?w = "\<lparr>board = ?b, chef_x = 3, chef_y = 1, win_PB = True, win_J = True, win_bread = True\<rparr>"
  let ?n = "\<lparr>board = ?b, chef_x = 3, chef_y = 1, win_PB = True, win_J = False, win_bread = True\<rparr>"
  have pw: "perimeter (fst (target 1 ?w)) (snd (target 1 ?w))"
    by (simp add: perimeter_def on_board_def target_def)
  have cw: "cell (board ?w) (fst (target 1 ?w)) (snd (target 1 ?w)) = 5"
    by (simp add: cell_def target_def)
  have pn: "perimeter (fst (target 1 ?n)) (snd (target 1 ?n))"
    by (simp add: perimeter_def on_board_def target_def)
  have cn: "cell (board ?n) (fst (target 1 ?n)) (snd (target 1 ?n)) = 5"
    by (simp add: cell_def target_def)
  have ev: "getFood (Draws 0 0 0 0) 1 ?w
     = Inr \<lparr>board = [[0,3,2,4,0],[5,0,0,0,6],[6,0,1,0,6],[6,0,0,0,6],[0,6,6,6,0]],
      chef_x = 2, chef_y = 2, win_PB = False, win_J = False, win_bread = False\<rparr>"
    by code_simp
  show ?thesis
    using getFood_goal[OF pw cw, of "Draws 0 0 0 0"] getFood_goal[OF pn cn, of "Draws 0 0 0 0"] ev
    by (auto simp: all_collected_def)
qed

text \<open>
  Claim C3, as amended. Let the cell that \<^verbatim>\<open>getFood\<close> reads hold jelly (2), peanut
  butter (3) or bread (4). Then \<^verbatim>\<open>getFood\<close> returns normally, sets the flag of that
  ingredient, whether or not it was set before, and writes 6, the code of an empty side
  square, into the cell; the other two flags, the other cells and the chef's position keep
  their values. A second \<^verbatim>\<open>getFood\<close> towards the same cell changes nothing.
\<close>

theorem getFood_ingredient:
  assumes "target dir s = (x, y)" and "on_board x y" and "shape (board s)"
    and "cell (board s) x y = item" and "item = 2 \<or> item = 3 \<or> item = 4"
  shows "\<exists>s'. getFood rs dir s = Inr s' \<and>
           board s' = put (board s) x y 6 \<and> cell (board s') x y = 6 \<and>
           win_PB s' = (win_PB s \<or> item = 3) \<and>
           win_J s' = (win_J s \<or> item = 2) \<and>
           win_bread s' = (win_bread s \<or> item = 4) \<and>
           chef_x s' = chef_x s \<and> chef_y s' = chef_y s \<and>
           getFood rs dir s' = Inr s'"
proof -
  have ob: "on_board (fst (target dir s)) (snd (target dir s))"
    using assms(1,2) by simp
  define s' where "s' = (if item = 3 then s\<lparr>win_PB := True, board := put (board s) x y 6\<rparr>
      else if item = 2 then s\<lparr>win_J := True, board := put (board s) x y 6\<rparr>
      else s\<lparr>win_bread := True, board := put (board s) x y 6\<rparr>)"
  have first: "getFood rs dir s = Inr s'"
    using assms(1,4,5) by (auto simp: getFood_result[OF ob] s'_def)
  have b': "board s' = put (board s) x y 6" and cx: "chef_x s' = chef_x s"
    and cy: "chef_y s' = chef_y s"
    by (simp_all add: s'_def)
  have six: "cell (board s') x y = 6"
    using assms(2,3) by (simp add: b' cell_put)
  have t': "target dir s' = (x, y)"
    using assms(1) cx cy by (auto simp: target_def split: if_splits)
  have ob': "on_board (fst (target dir s')) (snd (target dir s'))"
    using t' assms(2) by simp
  have second: "getFood rs dir s' = Inr s'"
    using six t' by (simp add: getFood_result[OF ob'])
  have flags: "win_PB s' = (win_PB s \<or> item = 3)" "win_J s' = (win_J s \<or> item = 2)"
    "win_bread s' = (win_bread s \<or> item = 4)"
    using assms(5) by (auto simp: s'_def)
  show ?thesis using first b' six flags cx cy second by blast
qed

theorem getFood_ingredient_witness:
  "getFood (Draws 0 0 0 0) 0
     \<lparr>board = [[0,3,2,4,0],[5,0,1,0,6],[6,0,0,0,6],[6,0,0,0,6],[0,6,6,6,0]],
      chef_x = 1, chef_y = 2, win_PB = False, win_J = False, win_bread = False\<rparr>
   = Inr \<lparr>board = [[0,3,6,4,0],[5,0,1,0,6],[6,0,0,0,6],[6,0,0,0,6],[0,6,6,6,0]],
      chef_x = 1, chef_y = 2, win_PB = False, win_J = True, win_bread = False\<rparr> \<and>
   getFood (Draws 0 0 0 0) 0
     \<lparr>board = [[0,3,6,4,0],[5,0,1,0,6],[6,0,0,0,6],[6,0,0,0,6],[0,6,6,6,0]],
      chef_x = 1, chef_y = 2, win_PB = False, win_J = True, win_bread = False\<rparr>
   = Inr \<lparr>board = [[0,3,6,4,0],[5,0,1,0,6],[6,0,0,0,6],[6,0,0,0,6],[0,6,6,6,0]],
      chef_x = 1, chef_y = 2, win_PB = False, win_J = True, win_bread = False\<rparr>"
proof -
  let ?s = "\<lparr>board = [[0,3,2,4,0],[5,0,1,0,6],[6,0,0,0,6],[6,0,0,0,6],[0,6,6,6,0]],
      chef_x = 1, chef_y = 2, win_PB = False, win_J = False, win_bread = False\<rparr>"
  have t: "target 0 ?s = (0, 2)" by (simp add: target_def)
  have ob: "on_board 0 2" by (simp add: on_board_def)
  have sh: "shape (board ?s)" by (simp add: shape_def)
  have c: "cell (board ?s) 0 2 = 2" by (simp add: cell_def)
  have ev: "getFood (Draws 0 0 0 0) 0 ?s
     = Inr \<lparr>board = [[0,3,6,4,0],[5,0,1,0,6],[6,0,0,0,6],[6,0,0,0,6],[0,6,6,6,0]],
      chef_x = 1, chef_y = 2, win_PB = False, win_J = True, win_bread = False\<rparr>"
    by code_simp
  from getFood_ingredient[OF t ob sh c, of "Draws 0 0 0 0"]
  obtain s' where "getFood (Draws 0 0 0 0) 0 ?s = Inr s'" "getFood (Draws 0 0 0 0) 0 s' = Inr s'"
    by auto
  with ev show ?thesis by simp
qed

text \<open>
  Claim C3 as stated fails: after the jelly at \<^verbatim>\<open>board[0][2]\<close> is collected the cell
  holds 6, not the code 0 of an empty square.
\<close>

theorem getFood_ingredient_counterexample:
  "getFood (Draws 0 0 0 0) 0
     \<lparr>board = [[0,3,2,4,0],[5,0,1,0,6],[6,0,0,0,6],[6,0,0,0,6],[0,6,6,6,0]],
      chef_x = 1, chef_y = 2, win_PB = False, win_J = False, win_bread = False\<rparr>
   = Inr \<lparr>board = [[0,3,6,4,0],[5,0,1,0,6],[6,0,0,0,6],[6,0,0,0,6],[0,6,6,6,0]],
      chef_x = 1, chef_y = 2, win_PB = False, win_J = True, win_bread = False\<rparr> \<and>
   cell [[0,3,6,4,0],[5,0,1,0,6],[6,0,0,0,6],[6,0,0,0,6],[0,6,6,6,0]] 0 2 \<noteq> 0"
  by code_simp

subsection \<open>handle_event\<close>

text \<open>
  Claim C4, as amended. Let the chef stand in the interior, at the edge towards which the
  pressed arrow key moves it. Then \<^verbatim>\<open>handle_event\<close> returns normally. Unless the
  cell one step further holds the goal (5) while all three flags are set, the chef's
  position is unchanged. The board changes only if that cell holds jelly, peanut butter
  or bread (2, 3, 4), or holds the goal while all three flags are set.
\<close>

theorem edge_press:
  assumes "interior (chef_x s) (chef_y s)" and "exits k s"
  shows "\<exists>s'. handle_event rs (key_press k) s = Inr (True, s') \<and>
     (\<not> (facing_item k s = 5 \<and> all_collected s) \<longrightarrow>
        chef_x s' = chef_x s \<and> chef_y s' = chef_y s) \<and>
     (board s' \<noteq> board s \<longrightarrow>
        facing_item k s = 2 \<or> facing_item k s = 3 \<or> facing_item k s = 4 \<or>
        (facing_item k s = 5 \<and> all_collected s))"
proof -
  have main: "\<exists>s'. handle_event rs (key_press k) s = Inr (True, s') \<and>
     (\<not> (facing_item k s = 5 \<and> all_collected s) \<longrightarrow>
        chef_x s' = chef_x s \<and> chef_y s' = chef_y s \<and> (facing_item k s \<notin> {2, 3, 4} \<longrightarrow> s' = s))"
  proof (cases k)
    case SDL_SCANCODE_UP
    with assms have e: "chef_x s = 3" by simp
    have ob: "on_board (fst (target 1 s)) (snd (target 1 s))"
      using assms(1) e by (simp add: target_def on_board_def interior_def)
    show ?thesis
      using edge_branch[OF ob, where can = "\<lambda>g. chef_x g < 3" and dx = 1 and dy = 0
          and item = "facing_item k s" and rs = rs] e SDL_SCANCODE_UP
      by (simp add: handle_event_def key_press_def facing_item_def target_def)
  next
    case SDL_SCANCODE_DOWN
    with assms have e: "chef_x s = 1" by simp
    have ob: "on_board (fst (target 0 s)) (snd (target 0 s))"
      using assms(1) e by (simp add: target_def on_board_def interior_def)
    show ?thesis
      using edge_branch[OF ob, where can = "\<lambda>g. chef_x g > 1" and dx = "- 1" and dy = 0
          and item = "facing_item k s" and rs = rs] e SDL_SCANCODE_DOWN
      by (simp add: handle_event_def key_press_def facing_item_def target_def)
  next
    case SDL_SCANCODE_LEFT
    with assms have e: "chef_y s = 1" by simp
    have ob: "on_board (fst (target 2 s)) (snd (target 2 s))"
      using assms(1) e by (simp add: target_def on_board_def interior_def)
    show ?thesis
      using edge_branch[OF ob, where can = "\<lambda>g. chef_y g > 1" and dx = 0 and dy = "- 1"
          and item = "facing_item k s" and rs = rs] e SDL_SCANCODE_LEFT
      by (simp add: handle_event_def key_press_def facing_item_def target_def)
  next
    case SDL_SCANCODE_RIGHT
    with assms have e: "chef_y s = 3" by simp
    have ob: "on_board (fst (target 3 s)) (snd (target 3 s))"
      using assms(1) e by (simp add: target_def on_board_def interior_def)
    show ?thesis
      using edge_branch[OF ob, where can = "\<lambda>g. chef_y g < 3" and dx = 0 and dy = 1
          and item = "facing_item k s" and rs = rs] e SDL_SCANCODE_RIGHT
      by (simp add: handle_event_def key_press_def facing_item_def target_def)
  next
    case SDL_SCANCODE_OTHER
    with assms show ?thesis by simp
  qed
  then show ?thesis by auto
qed

theorem edge_press_witness:
  "handle_event (Draws 0 0 0 0) (key_press SDL_SCANCODE_DOWN)
     \<lparr>board = [[0,3,2,4,0],[5,0,1,0,6],[6,0,0,0,6],[6,0,0,0,6],[0,6,6,6,0]],
      chef_x = 1, chef_y = 2, win_PB = False, win_J = False, win_bread = False\<rparr>
   = Inr (True,
     \<lparr>board = [[0,3,6,4,0],[5,0,1,0,6],[6,0,0,0,6],[6,0,0,0,6],[0,6,6,6,0]],
      chef_x = 1, chef_y = 2, win_PB = False, win_J = True, win_bread = False\<rparr>) \<and>
   facing_item SDL_SCANCODE_DOWN
     \<lparr>board = [[0,3,2,4,0],[5,0,1,0,6],[6,0,0,0,6],[6,0,0,0,6],[0,6,6,6,0]],
      chef_x = 1, chef_y = 2, win_PB = False, win_J = False, win_bread = False\<rparr> = 2"
proof -
  let ?s = "\<lparr>board = [[0,3,2,4,0],[5,0,1,0,6],[6,0,0,0,6],[6,0,0,0,6],[0,6,6,6,0]],
      chef_x = 1, chef_y = 2, win_PB = False, win_J = False, win_bread = False\<rparr>"
  have i: "interior (chef_x ?s) (chef_y ?s)" by (simp add: interior_def)
  have e: "exits SDL_SCANCODE_DOWN ?s" by simp
  have ev: "handle_event (Draws 0 0 0 0) (key_press SDL_SCANCODE_DOWN) ?s
   = Inr (True,
     \<lparr>board = [[0,3,6,4,0],[5,0,1,0,6],[6,0,0,0,6],[6,0,0,0,6],[0,6,6,6,0]],
      chef_x = 1, chef_y = 2, win_PB = False, win_J = True, win_bread = False\<rparr>)"
    by code_simp
  have f: "facing_item SDL_SCANCODE_DOWN ?s = 2" by code_simp
  show ?thesis using edge_press[OF i e, of "Draws 0 0 0 0"] ev f by simp
qed

text \<open>
  Claim C4 as stated fails: the chef stands at (3,1), at the edge for the up key, the
  cell (4,1) beyond holds the goal and the three flags are set. The key press ends the
  round, \<^verbatim>\<open>initBoard\<close> puts the chef at (2,2), and the second \<^verbatim>\<open>if\<close> of the branch then
  moves it to (3,2): the position has changed.
\<close>

theorem edge_press_counterexample:
  "handle_event (Draws 0 0 0 0) (key_press SDL_SCANCODE_UP)
     \<lparr>board = [[0,6,6,6,0],[6,0,0,0,6],[6,0,0,0,6],[6,1,0,0,6],[0,5,6,6,0]],
      chef_x = 3, chef_y = 1, win_PB = True, win_J = True, win_bread = True\<rparr>
   = Inr (True,
     \<lparr>board = [[0,3,2,4,0],[5,0,0,0,6],[6,0,0,0,6],[6,0,1,0,6],[0,6,6,6,0]],
      chef_x = 3, chef_y = 2, win_PB = False, win_J = False, win_bread = False\<rparr>) \<and>
   exits SDL_SCANCODE_UP
     \<lparr>board = [[0,6,6,6,0],[6,0,0,0,6],[6,0,0,0,6],[6,1,0,0,6],[0,5,6,6,0]],
      chef_x = 3, chef_y = 1, win_PB = True, win_J = True, win_bread = True\<rparr>"
  by code_simp

text \<open>
  Claim C8, as amended. With the chef in the interior \<^verbatim>\<open>handle_event\<close> returns normally,
  and its boolean is true exactly when the event is a key press that is not a repeat and
  whose key is one of the four arrows, whether or not that press has changed the state.
  For every other event the boolean is false and the state is unchanged.
\<close>

theorem handle_event_result:
  assumes "interior (chef_x s) (chef_y s)"
  shows "\<exists>s'. handle_event rs evt s
           = Inr (ev_type evt = SDL_KEYDOWN \<and> key_repeat evt = 0 \<and> is_arrow (key_scancode evt), s') \<and>
          (\<not> (ev_type evt = SDL_KEYDOWN \<and> key_repeat evt = 0 \<and> is_arrow (key_scancode evt))
             \<longrightarrow> s' = s)"
proof (cases "ev_type evt = SDL_KEYDOWN \<and> key_repeat evt = 0")
  case False
  then show ?thesis by (auto simp: handle_event_def)
next
  case True
  have i: "1 \<le> chef_x s" "chef_x s \<le> 3" "1 \<le> chef_y s" "chef_y s \<le> 3"
    using assms by (simp_all add: interior_def)
  show ?thesis
  proof (cases "key_scancode evt")
    case SDL_SCANCODE_UP
    have "chef_x s = 3 \<Longrightarrow> on_board (fst (target 1 s)) (snd (target 1 s))"
      using i by (simp add: target_def on_board_def)
    from branch_returns[OF assms this, where can = "\<lambda>g. chef_x g < 3" and dx = 1 and dy = 0
        and rs = rs]
    show ?thesis using True SDL_SCANCODE_UP by (simp add: handle_event_def is_arrow_def)
  next
    case SDL_SCANCODE_DOWN
    have "chef_x s = 1 \<Longrightarrow> on_board (fst (target 0 s)) (snd (target 0 s))"
      using i by (simp add: target_def on_board_def)
    from branch_returns[OF assms this, where can = "\<lambda>g. chef_x g > 1" and dx = "- 1" and dy = 0
        and rs = rs]
    show ?thesis using True SDL_SCANCODE_DOWN by (simp add: handle_event_def is_arrow_def)
  next
    case SDL_SCANCODE_LEFT
    have "chef_y s = 1 \<Longrightarrow> on_board (fst (target 2 s)) (snd (target 2 s))"
      using i by (simp add: target_def on_board_def)
    from branch_returns[OF assms this, where can = "\<lambda>g. chef_y g > 1" and dx = 0 and dy = "- 1"
        and rs = rs]
    show ?thesis using True SDL_SCANCODE_LEFT by (simp add: handle_event_def is_arrow_def)
  next
    case SDL_SCANCODE_RIGHT
    have "chef_y s = 3 \<Longrightarrow> on_board (fst (target 3 s)) (snd (target 3 s))"
      using i by (simp add: target_def on_board_def)
    from branch_returns[OF assms this, where can = "\<lambda>g. chef_y g < 3" and dx = 0 and dy = 1
        and rs = rs]
    show ?thesis using True SDL_SCANCODE_RIGHT by (simp add: handle_event_def is_arrow_def)
  next
    case SDL_SCANCODE_OTHER
    with True show ?thesis by (simp add: handle_event_def is_arrow_def)
  qed
qed

theorem handle_event_result_witness:
  "handle_event (Draws 0 0 0 0) (key_press SDL_SCANCODE_RIGHT)
     \<lparr>board = [[0,3,2,4,0],[5,0,0,0,6],[6,0,1,0,6],[6,0,0,0,6],[0,6,6,6,0]],
      chef_x = 2, chef_y = 2, win_PB = False, win_J = False, win_bread = False\<rparr>
   = Inr (True,
     \<lparr>board = [[0,3,2,4,0],[5,0,0,0,6],[6,0,0,1,6],[6,0,0,0,6],[0,6,6,6,0]],
      chef_x = 2, chef_y = 3, win_PB = False, win_J = False, win_bread = False\<rparr>) \<and>
   handle_event (Draws 0 0 0 0) \<lparr>ev_type = SDL_KEYDOWN, key_repeat = 1, key_scancode = SDL_SCANCODE_RIGHT\<rparr>
     \<lparr>board = [[0,3,2,4,0],[5,0,0,0,6],[6,0,1,0,6],[6,0,0,0,6],[0,6,6,6,0]],
      chef_x = 2, chef_y = 2, win_PB = False, win_J = False, win_bread = False\<rparr>
   = Inr (False,
     \<lparr>board = [[0,3,2,4,0],[5,0,0,0,6],[6,0,1,0,6],[6,0,0,0,6],[0,6,6,6,0]],
      chef_x = 2, chef_y = 2, win_PB = False, win_J = False, win_bread = False\<rparr>)"
proof -
  let ?s = "\<lparr>board = [[0,3,2,4,0],[5,0,0,0,6],[6,0,1,0,6],[6,0,0,0,6],[0,6,6,6,0]],
      chef_x = 2, chef_y = 2, win_PB = False, win_J = False, win_bread = False\<rparr>"
  have i: "interior (chef_x ?s) (chef_y ?s)" by (simp add: interior_def)
  have ev: "handle_event (Draws 0 0 0 0) (key_press SDL_SCANCODE_RIGHT) ?s
   = Inr (True,
     \<lparr>board = [[0,3,2,4,0],[5,0,0,0,6],[6,0,0,1,6],[6,0,0,0,6],[0,6,6,6,0]],
      chef_x = 2, chef_y = 3, win_PB = False, win_J = False, win_bread = False\<rparr>)"
    by code_simp
  show ?thesis
    using ev handle_event_result[OF i, of "Draws 0 0 0 0"
        "\<lparr>ev_type = SDL_KEYDOWN, key_repeat = 1, key_scancode = SDL_SCANCODE_RIGHT\<rparr>"]
    by (simp add: is_arrow_def)
qed

text \<open>
  Claim C8 as stated fails: the chef stands at (3,2) and the cell (4,2) beyond holds no
  item. The up key changes nothing, and \<^verbatim>\<open>handle_event\<close> returns true.
\<close>

theorem handle_event_result_counterexample:
  "handle_event (Draws 0 0 0 0) (key_press SDL_SCANCODE_UP)
     \<lparr>board = [[0,3,2,4,0],[5,0,0,0,6],[6,0,0,0,6],[6,0,1,0,6],[0,6,6,6,0]],
      chef_x = 3, chef_y = 2, win_PB = False, win_J = False, win_bread = False\<rparr>
   = Inr (True,
     \<lparr>board = [[0,3,2,4,0],[5,0,0,0,6],[6,0,0,0,6],[6,0,1,0,6],[0,6,6,6,0]],
      chef_x = 3, chef_y = 2, win_PB = False, win_J = False, win_bread = False\<rparr>)"
  by code_simp

subsection \<open>The scenario\<close>

text \<open>
  Claim C9. Positions and cells are read in the coordinates of the specification, \<open>x\<close> to
  the right and \<open>y\<close> upwards: the position is \<^verbatim>\<open>(chef.y, chef.x)\<close> and the cell \<open>(x, y)\<close> is
  \<^verbatim>\<open>board[y][x]\<close>. Let the board be 5 by 5 with peanut butter at (0,1), jelly at (0,2),
  bread at (0,3) and the goal at (1,0), and let the chef stand at (2,2). Whatever the
  draws, the first press of the left key moves the chef to (1,2). The second press finds
  the chef at the left edge; \<^verbatim>\<open>getFood\<close> reads the cell (0,2), which holds the jelly,
  collects it, so that \<^verbatim>\<open>win.J\<close> is set and the cell holds 6, and the chef stays at (1,2).
  The draws 3, 3, 3, 0 make \<^verbatim>\<open>initBoard\<close> place the items so.
\<close>

theorem scenario_left:
  assumes "shape (board s)" and "position s = (2, 2)"
    and "cell_at s 0 1 = 3" and "cell_at s 0 2 = 2" and "cell_at s 0 3 = 4"
    and "cell_at s 1 0 = 5"
  shows "\<exists>s1 s2.
     handle_event rs1 (key_press SDL_SCANCODE_LEFT) s = Inr (True, s1) \<and>
     position s1 = (1, 2) \<and>
     exits SDL_SCANCODE_LEFT s1 \<and> transposed (target 2 s1) = (0, 2) \<and>
     cell_at s1 0 2 = 2 \<and>
     handle_event rs2 (key_press SDL_SCANCODE_LEFT) s1 = Inr (True, s2) \<and>
     win_J s2 \<and> position s2 = (1, 2) \<and> cell_at s2 0 2 = 6 \<and>
     win_PB s2 = win_PB s \<and> win_bread s2 = win_bread s"
proof -
  have c: "chef_x s = 2" "chef_y s = 2"
    using assms(2) by (simp_all add: position_def transposed_def)
  have jelly: "cell (board s) 2 0 = 2" using assms(4) by (simp add: cell_at_def)
  let ?b1 = "put (put (board s) 2 2 0) 2 1 1"
  define s1 where "s1 = s\<lparr>board := ?b1, chef_x := 2, chef_y := 1\<rparr>"
  have sh0: "shape (put (board s) 2 2 0)" using assms(1) by (rule shape_put)
  have sh1: "shape (board s1)" using sh0 by (simp add: s1_def shape_put)
  have ob: "on_board 2 2" "on_board 2 1" "on_board 2 0" by (simp_all add: on_board_def)
  have mv: "move_chef 0 (- 1) s = Inr s1"
    using c ob by (simp add: move_chef_def write_cell_def s1_def)
  have first: "handle_event rs1 (key_press SDL_SCANCODE_LEFT) s = Inr (True, s1)"
    using c mv by (simp add: handle_event_def key_press_def)
  have c1: "chef_x s1 = 2" "chef_y s1 = 1" by (simp_all add: s1_def)
  have t1: "target 2 s1 = (2, 0)" using c1 by (simp add: target_def)
  have j1: "cell (board s1) 2 0 = 2"
    using jelly assms(1) sh0 ob by (simp add: s1_def cell_put)
  have ob1: "on_board (fst (target 2 s1)) (snd (target 2 s1))" using t1 ob by simp
  define s2 where "s2 = s1\<lparr>win_J := True, board := put (board s1) 2 0 6\<rparr>"
  have gf: "getFood rs2 2 s1 = Inr s2"
    using t1 j1 by (simp add: getFood_result[OF ob1] s2_def)
  have c2: "chef_x s2 = 2" "chef_y s2 = 1" by (simp_all add: s2_def c1)
  have second: "handle_event rs2 (key_press SDL_SCANCODE_LEFT) s1 = Inr (True, s2)"
    using c1 c2 gf by (simp add: handle_event_def key_press_def)
  have six: "cell_at s2 0 2 = 6"
    using sh1 ob by (simp add: cell_at_def s2_def cell_put)
  have flags: "win_J s2" "win_PB s2 = win_PB s" "win_bread s2 = win_bread s"
    by (simp_all add: s2_def s1_def)
  have "position s1 = (1, 2)" "position s2 = (1, 2)"
    using c1 c2 by (simp_all add: position_def transposed_def)
  moreover have "exits SDL_SCANCODE_LEFT s1" using c1 by simp
  moreover have "transposed (target 2 s1) = (0, 2)" using t1 by (simp add: transposed_def)
  moreover have "cell_at s1 0 2 = 2" using j1 by (simp add: cell_at_def)
  ultimately show ?thesis using first second six flags by blast
qed

theorem scenario_left_witness:
  "initBoard (Draws 3 3 3 0)
     \<lparr>board = [], chef_x = 0, chef_y = 0, win_PB = False, win_J = False, win_bread = False\<rparr>
   = Inr \<lparr>board = [[0,5,6,6,0],[3,0,0,0,6],[2,0,1,0,6],[4,0,0,0,6],[0,6,6,6,0]],
      chef_x = 2, chef_y = 2, win_PB = False, win_J = False, win_bread = False\<rparr> \<and>
   handle_event (Draws 0 0 0 0) (key_press SDL_SCANCODE_LEFT)
     \<lparr>board = [[0,5,6,6,0],[3,0,0,0,6],[2,0,1,0,6],[4,0,0,0,6],[0,6,6,6,0]],
      chef_x = 2, chef_y = 2, win_PB = False, win_J = False, win_bread = False\<rparr>
   = Inr (True,
     \<lparr>board = [[0,5,6,6,0],[3,0,0,0,6],[2,1,0,0,6],[4,0,0,0,6],[0,6,6,6,0]],
      chef_x = 2, chef_y = 1, win_PB = False, win_J = False, win_bread = False\<rparr>) \<and>
   handle_event (Draws 0 0 0 0) (key_press SDL_SCANCODE_LEFT)
     \<lparr>board = [[0,5,6,6,0],[3,0,0,0,6],[2,1,0,0,6],[4,0,0,0,6],[0,6,6,6,0]],
      chef_x = 2, chef_y = 1, win_PB = False, win_J = False, win_bread = False\<rparr>
   = Inr (True,
     \<lparr>board = [[0,5,6,6,0],[3,0,0,0,6],[6,1,0,0,6],[4,0,0,0,6],[0,6,6,6,0]],
      chef_x = 2, chef_y = 1, win_PB = False, win_J = True, win_bread = False\<rparr>) \<and>
   position
     \<lparr>board = [[0,5,6,6,0],[3,0,0,0,6],[6,1,0,0,6],[4,0,0,0,6],[0,6,6,6,0]],
      chef_x = 2, chef_y = 1, win_PB = False, win_J = True, win_bread = False\<rparr> = (1, 2)"
proof -
  let ?s = "\<lparr>board = [[0,5,6,6,0],[3,0,0,0,6],[2,0,1,0,6],[4,0,0,0,6],[0,6,6,6,0]],
      chef_x = 2, chef_y = 2, win_PB = False, win_J = False, win_bread = False\<rparr>"
  have sh: "shape (board ?s)" by (simp add: shape_def)
  have p: "position ?s = (2, 2)" by (simp add: position_def transposed_def)
  have pb: "cell_at ?s 0 1 = 3" and j: "cell_at ?s 0 2 = 2" and br: "cell_at ?s 0 3 = 4"
    and g: "cell_at ?s 1 0 = 5"
    by (simp_all add: cell_at_def cell_def)
  have init: "initBoard (Draws 3 3 3 0)
     \<lparr>board = [], chef_x = 0, chef_y = 0, win_PB = False, win_J = False, win_bread = False\<rparr>
     = Inr ?s"
    by code_simp
  have l1: "handle_event (Draws 0 0 0 0) (key_press SDL_SCANCODE_LEFT) ?s
   = Inr (True,
     \<lparr>board = [[0,5,6,6,0],[3,0,0,0,6],[2,1,0,0,6],[4,0,0,0,6],[0,6,6,6,0]],
      chef_x = 2, chef_y = 1, win_PB = False, win_J = False, win_bread = False\<rparr>)"
    by code_simp
  from scenario_left[OF sh p pb j br g, of "Draws 0 0 0 0" "Draws 0 0 0 0"]
  obtain s1 s2 where r: "handle_event (Draws 0 0 0 0) (key_press SDL_SCANCODE_LEFT) ?s = Inr (True, s1)"
    "handle_event (Draws 0 0 0 0) (key_press SDL_SCANCODE_LEFT) s1 = Inr (True, s2)"
    "win_J s2" "position s2 = (1, 2)"
    by blast
  have l2: "handle_event (Draws 0 0 0 0) (key_press SDL_SCANCODE_LEFT)
     \<lparr>board = [[0,5,6,6,0],[3,0,0,0,6],[2,1,0,0,6],[4,0,0,0,6],[0,6,6,6,0]],
      chef_x = 2, chef_y = 1, win_PB = False, win_J = False, win_bread = False\<rparr>
   = Inr (True,
     \<lparr>board = [[0,5,6,6,0],[3,0,0,0,6],[6,1,0,0,6],[4,0,0,0,6],[0,6,6,6,0]],
      chef_x = 2, chef_y = 1, win_PB = False, win_J = True, win_bread = False\<rparr>)"
    by code_simp
  from r l1 l2 init show ?thesis by auto
qed

end
